theory Spec2Isabelle
  imports Complex_Main
begin

section \<open>Strings and character classes\<close>

text \<open>
  A JavaScript string is modelled as a \<^typ>\<open>string\<close>: a list of code units below 256
  (the Latin-1 range). The character classes are those of ECMAScript regular expressions
  without the \<open>u\<close> flag, restricted to that range.
\<close>

definition code :: "char \<Rightarrow> nat" where
  "code c = of_char c"

text \<open>\<open>\d\<close>: the ten ASCII digits.\<close>

definition is_digit :: "char \<Rightarrow> bool" where
  "is_digit c = (48 \<le> code c \<and> code c \<le> 57)"

text \<open>\<open>\w\<close>: ASCII letters, digits and the underscore.\<close>

definition is_word :: "char \<Rightarrow> bool" where
  "is_word c = ((48 \<le> code c \<and> code c \<le> 57) \<or> (65 \<le> code c \<and> code c \<le> 90)
                \<or> code c = 95 \<or> (97 \<le> code c \<and> code c \<le> 122))"

text \<open>\<open>\s\<close>: tab, line feed, vertical tab, form feed, carriage return, space, no-break space.\<close>

definition is_space :: "char \<Rightarrow> bool" where
  "is_space c = ((9 \<le> code c \<and> code c \<le> 13) \<or> code c = 32 \<or> code c = 160)"

text \<open>Line terminators, which \<open>.\<close> does not match.\<close>

definition is_line_terminator :: "char \<Rightarrow> bool" where
  "is_line_terminator c = (code c = 10 \<or> code c = 13)"

text \<open>\<open>String.prototype.toLowerCase\<close> on one code unit of the Latin-1 range.\<close>

definition lower_char :: "char \<Rightarrow> char" where
  "lower_char c =
     (if (65 \<le> code c \<and> code c \<le> 90) \<or> (192 \<le> code c \<and> code c \<le> 222 \<and> code c \<noteq> 215)
      then char_of (code c + 32) else c)"

definition toLowerCase :: "string \<Rightarrow> string" where
  "toLowerCase s = map lower_char s"

section \<open>Values, errors and events\<close>

text \<open>
  A parsed JSON value. An object is the list of its members, each key once; a number is
  a finite number, with or without fraction.
\<close>

datatype json =
  JNull | JBool bool | JNum rat | JStr string | JArr "json list" | JObj "(string \<times> json) list"

text \<open>A property read on a parsed value; \<open>None\<close> is \<open>undefined\<close>.\<close>

definition member :: "json \<Rightarrow> string \<Rightarrow> json option" where
  "member v k = (case v of JObj fs \<Rightarrow> map_of fs k | _ \<Rightarrow> None)"

definition truthy :: "json option \<Rightarrow> bool" where
  "truthy v =
     (case v of
        None \<Rightarrow> False
      | Some JNull \<Rightarrow> False
      | Some (JBool b) \<Rightarrow> b
      | Some (JNum n) \<Rightarrow> n \<noteq> 0
      | Some (JStr s) \<Rightarrow> s \<noteq> []
      | Some (JArr xs) \<Rightarrow> True
      | Some (JObj fs) \<Rightarrow> True)"

text \<open>What a \<open>catch\<close> clause receives: an \<open>Error\<close> with its message, or another value.\<close>

datatype thrown = ErrorObj string | NonError

definition errorMessage :: "thrown \<Rightarrow> string" where
  "errorMessage e = (case e of ErrorObj m \<Rightarrow> m | NonError \<Rightarrow> ''Failed to process transactions'')"

text \<open>What the second completion is asked to analyse.\<close>

datatype second_input = ExtractedContent string | ContentAddress json

text \<open>
  What a process does, in the order it does it: the write of the zip directory or the
  failure of the load when the module is loaded, then the calls and the branches of the
  handler.
\<close>

datatype event =
    ZipDataWritten
  | ZipLoadFailed
  | LookupZipCall string
  | ZipNotInitialized
  | SearchCall string
  | FirstCompletionCall
  | DirectLinkDetection
  | ProcessingType1
  | ProcessingType2
  | ProcessingType3
  | ExtractCall json
  | SecondCompletionCall second_input
  | NoValidResponseType

section \<open>Address helpers of the request handler\<close>

subsection \<open>extractZipcode\<close>

text \<open>
  \<open>\b\<close> between the code unit before the current position (if any) and the rest of the
  input: exactly one of the two sides is a word character.
\<close>

definition word_boundary :: "char option \<Rightarrow> string \<Rightarrow> bool" where
  "word_boundary prev rest =
     ((case prev of None \<Rightarrow> False | Some c \<Rightarrow> is_word c)
      \<noteq> (case rest of [] \<Rightarrow> False | c # _ \<Rightarrow> is_word c))"

text \<open>
  One attempt of \<open>/\b\d{5}(?:-\d{4})?\b/\<close> anchored at the start of \<open>s\<close>, where
  \<open>prev\<close> is the code unit before it. The optional group is greedy: the nine-digit form is
  tried first and the five-digit form only when the longer attempt fails.
\<close>

definition zip_match_at :: "char option \<Rightarrow> string \<Rightarrow> string option" where
  "zip_match_at prev s =
     (if word_boundary prev s \<and> 5 \<le> length s \<and> list_all is_digit (take 5 s) then
        (let r = drop 5 s in
         if 5 \<le> length r \<and> r ! 0 = CHR ''-'' \<and> list_all is_digit (take 4 (drop 1 r))
            \<and> word_boundary (Some (r ! 4)) (drop 5 r)
         then Some (take 10 s)
         else if word_boundary (Some (s ! 4)) r then Some (take 5 s)
         else None)
      else None)"

text \<open>\<open>address.match(zipcodeRegex)\<close>: the attempts run from left to right.\<close>

fun zip_search :: "char option \<Rightarrow> string \<Rightarrow> string option" where
  "zip_search prev [] = zip_match_at prev []"
| "zip_search prev (c # cs) =
     (case zip_match_at prev (c # cs) of
        Some z \<Rightarrow> Some z
      | None \<Rightarrow> zip_search (Some c) cs)"

definition extractZipcode :: "string \<Rightarrow> string option" where
  "extractZipcode address = zip_search None address"

text \<open>
  The shape \<open>\d{5}(-\d{4})?\<close> of a zip, and an occurrence of it in an address between
  word boundaries: \<open>a = p @ z @ q\<close>, with no word character next to \<open>z\<close> on either side.
\<close>

definition zip_shape :: "string \<Rightarrow> bool" where
  "zip_shape z =
     ((length z = 5 \<and> list_all is_digit z)
      \<or> (length z = 10 \<and> list_all is_digit (take 5 z) \<and> z ! 5 = CHR ''-''
          \<and> list_all is_digit (drop 6 z)))"

definition bounded_in :: "string \<Rightarrow> string \<Rightarrow> bool" where
  "bounded_in p q = ((p = [] \<or> \<not> is_word (last p)) \<and> (q = [] \<or> \<not> is_word (hd q)))"

definition zip_occurrence :: "string \<Rightarrow> string \<Rightarrow> string \<Rightarrow> string \<Rightarrow> bool" where
  "zip_occurrence a p z q = (a = p @ z @ q \<and> zip_shape z \<and> bounded_in p q)"

subsection \<open>String operations used by the handler\<close>

text \<open>\<open>s.replace(/\s+/g, ' ')\<close>: every maximal run of white space becomes one space.\<close>

fun collapse_from :: "bool \<Rightarrow> string \<Rightarrow> string" where
  "collapse_from in_run [] = []"
| "collapse_from in_run (c # cs) =
     (if is_space c then (if in_run then collapse_from True cs else CHR '' '' # collapse_from True cs)
      else c # collapse_from False cs)"

definition collapse_ws :: "string \<Rightarrow> string" where
  "collapse_ws s = collapse_from False s"

text \<open>\<open>s.replace(/\s+/g, '')\<close> and \<open>s.replace(/\s/g, r)\<close>.\<close>

definition remove_ws :: "string \<Rightarrow> string" where
  "remove_ws s = filter (\<lambda>c. \<not> is_space c) s"


text \<open>\<open>s.trim()\<close>.\<close>

definition trim :: "string \<Rightarrow> string" where
  "trim s = rev (dropWhile is_space (rev (dropWhile is_space s)))"

text \<open>
  \<open>s.replace(/\s+W$/i, r)\<close> for a lower-case ASCII word \<open>W\<close>: when the input ends with
  white space followed by \<open>W\<close> in any letter case, the whole white-space run and the word
  are replaced by \<open>r\<close>; the leftmost match starts at the beginning of that run.
\<close>

definition replace_ws_suffix :: "string \<Rightarrow> string \<Rightarrow> string \<Rightarrow> string" where
  "replace_ws_suffix w r s =
     (let n = length s - length w; h = take n s; t = drop n s in
      if length w \<le> length s \<and> toLowerCase t = w \<and> h \<noteq> [] \<and> is_space (last h)
      then rev (dropWhile is_space (rev h)) @ r
      else s)"

text \<open>
  \<open>s.replace(/,.*$/, '')\<close>: the input is cut at the first comma after which no line
  terminator follows (\<open>.\<close> does not match one, and \<open>$\<close> is the end of the input).
\<close>

fun strip_from_comma :: "string \<Rightarrow> string" where
  "strip_from_comma [] = []"
| "strip_from_comma (c # cs) =
     (if c = CHR '','' \<and> \<not> list_ex is_line_terminator cs then [] else c # strip_from_comma cs)"

text \<open>\<open>s.includes(n)\<close>.\<close>

fun str_includes :: "string \<Rightarrow> string \<Rightarrow> bool" where
  "str_includes [] n = (n = [])"
| "str_includes (c # cs) n = (take (length n) (c # cs) = n \<or> str_includes cs n)"

subsection \<open>removeZipcode\<close>

text \<open>
  One attempt of \<open>/,?\s*\b\d{5}(?:-\d{4})?\b/\<close> anchored at the start of \<open>s\<close>: an
  optional comma, all the white space that follows, then the zip. Giving back the comma or
  some of the white space cannot help, since the zip starts with a digit. The result is the
  input after the match.
\<close>

definition remove_at :: "char option \<Rightarrow> string \<Rightarrow> string option" where
  "remove_at prev s =
     (let (prev1, s1) = (case s of c # t \<Rightarrow> if c = CHR '','' then (Some c, t) else (prev, s)
                                  | [] \<Rightarrow> (prev, s));
          ws = takeWhile is_space s1;
          s2 = dropWhile is_space s1;
          prev2 = (if ws = [] then prev1 else Some (last ws))
      in case zip_match_at prev2 s2 of
           Some z \<Rightarrow> Some (drop (length z) s2)
         | None \<Rightarrow> None)"

fun remove_scan :: "char option \<Rightarrow> string \<Rightarrow> string option" where
  "remove_scan prev [] = remove_at prev []"
| "remove_scan prev (c # cs) =
     (case remove_at prev (c # cs) of
        Some rest \<Rightarrow> Some rest
      | None \<Rightarrow> map_option ((#) c) (remove_scan (Some c) cs))"

definition removeZipcode :: "string \<Rightarrow> string" where
  "removeZipcode address =
     trim (case remove_scan None address of Some r \<Rightarrow> r | None \<Rightarrow> address)"

subsection \<open>Markdown links\<close>

text \<open>
  One attempt of \<open>\[([^\]]+)\]\((U)\)\<close> anchored at the start of \<open>s\<close>, for a URL pattern
  \<open>U\<close> made of pieces that cannot match a closing parenthesis: the anchor text is the run
  up to the first \<open>]\<close>, the URL is the run up to the first \<open>)\<close>, and \<open>ok\<close> decides
  whether that run matches \<open>U\<close>. The result is the text, the URL and the input after the
  match.
\<close>

definition link_at :: "(string \<Rightarrow> bool) \<Rightarrow> string \<Rightarrow> (string \<times> string \<times> string) option" where
  "link_at ok s =
     (case s of
        c # t \<Rightarrow>
          if c = CHR ''['' then
            (let text = takeWhile (\<lambda>x. x \<noteq> CHR '']'') t;
                 r1 = dropWhile (\<lambda>x. x \<noteq> CHR '']'') t in
             if text \<noteq> [] \<and> take 2 r1 = ''](''
             then (let u = drop 2 r1;
                       url = takeWhile (\<lambda>x. x \<noteq> CHR '')'') u;
                       r2 = dropWhile (\<lambda>x. x \<noteq> CHR '')'') u in
                   if r2 \<noteq> [] \<and> ok url then Some (text, url, drop 1 r2) else None)
             else None)
          else None
      | [] \<Rightarrow> None)"

text \<open>
  \<open>[^)]+parcel\.aspx[^)]+\<close> with the \<open>i\<close> flag, on a run without closing parenthesis:
  \<open>parcel.aspx\<close> in any letter case, with at least one code unit before and after it.
\<close>

definition parcel_url :: "string \<Rightarrow> bool" where
  "parcel_url u =
     list_ex (\<lambda>i. toLowerCase (take 11 (drop i u)) = ''parcel.aspx'') [1 ..< length u - 11]"

text \<open>
  \<open>https:\/\/[^)]+parcel\.aspx\?pid=\d+\<close> (case-sensitive) on a run without closing
  parenthesis: the run starts with \<open>https://\<close>, ends with \<open>parcel.aspx?pid=\<close> and a
  non-empty run of digits, and has at least one code unit in between.
\<close>

definition https_parcel_pid_url :: "string \<Rightarrow> bool" where
  "https_parcel_pid_url u =
     (let d = takeWhile is_digit (rev u);
          h = take (length u - length d) u in
      d \<noteq> [] \<and> take 8 u = ''https://''
      \<and> drop (length h - 16) h = ''parcel.aspx?pid=''
      \<and> 8 + 1 + 16 \<le> length h)"

subsection \<open>findParcelUrl\<close>

text \<open>The search address as \<open>findParcelUrl\<close> and the direct link detection normalise it.\<close>

definition normalizedSearchAddress :: "string \<Rightarrow> string" where
  "normalizedSearchAddress searchAddress =
     trim (strip_from_comma (replace_ws_suffix ''rd'' '' road''
       (collapse_ws (toLowerCase searchAddress))))"


text \<open>Every successful attempt consumes at least the opening bracket.\<close>

lemma link_at_shorter: "link_at ok s = Some (t, u, rest) \<Longrightarrow> length rest < length s"
proof -
  have d: "length (dropWhile P xs) \<le> length xs" for P and xs :: string
    by (rule length_dropWhile_le)
  assume a: "link_at ok s = Some (t, u, rest)"
  then obtain c s' where s: "s = c # s'" by (cases s) (auto simp: link_at_def)
  define r1 where "r1 = dropWhile (\<lambda>x. x \<noteq> CHR '']'') s'"
  define r2 where "r2 = dropWhile (\<lambda>x. x \<noteq> CHR '')'') (drop 2 r1)"
  from a s have "rest = drop 1 r2"
    by (auto simp: link_at_def Let_def r1_def r2_def split: if_splits)
  moreover have "length r2 \<le> length r1" unfolding r2_def
    using d[of "\<lambda>x. x \<noteq> CHR '')''" "drop 2 r1"] by simp
  moreover have "length r1 \<le> length s'" unfolding r1_def by (rule d)
  ultimately show ?thesis using s by simp
qed

text \<open>
  The \<open>while ((match = linkRegex.exec(rawContent)) !== null)\<close> loop: the matches are taken
  one after the other, each search starting where the previous match ended, and the first
  link whose lower-cased text is one of the variations is returned.
\<close>

function parcel_loop :: "string list \<Rightarrow> string \<Rightarrow> string option" where
  "parcel_loop vars [] = None"
| "parcel_loop vars (c # cs) =
     (case link_at parcel_url (c # cs) of
        Some (linkText, linkUrl, rest) \<Rightarrow>
          if list_ex (\<lambda>variation. toLowerCase linkText = variation) vars then Some linkUrl
          else parcel_loop vars rest
      | None \<Rightarrow> parcel_loop vars cs)"
  by pat_completeness auto
termination
  by (relation "measure (\<lambda>(vars, s). length s)") (auto dest: link_at_shorter)

text \<open>
  The second attempt of \<open>findParcelUrl\<close>. \<open>addressParts\<close> is the match of
  \<open>/^(\d+)\s+([^,]+?)(?:\s+(?:road|rd))?$/i\<close>: the digits at the start, the white space
  after them, then the shortest non-empty street name without comma after which the input
  ends, or ends with white space and \<open>road\<close> or \<open>rd\<close>. The engine gives white space back
  only when nothing follows it, and the street name is then the last white-space code unit.
\<close>

definition road_suffix :: "string \<Rightarrow> bool" where
  "road_suffix y =
     (let w = dropWhile is_space y in
      y \<noteq> [] \<and> is_space (hd y) \<and> (toLowerCase w = ''road'' \<or> toLowerCase w = ''rd''))"

definition street_of :: "string \<Rightarrow> string option" where
  "street_of x =
     (if x = [] \<or> CHR '','' \<in> set x then None
      else Some (case find (\<lambda>k. road_suffix (drop k x)) [1 ..< length x] of
                   Some k \<Rightarrow> take k x
                 | None \<Rightarrow> x))"

definition addressParts :: "string \<Rightarrow> (string \<times> string) option" where
  "addressParts n =
     (let houseNumber = takeWhile is_digit n;
          r0 = dropWhile is_digit n;
          ws = takeWhile is_space r0;
          r = dropWhile is_space r0
      in if houseNumber = [] \<or> ws = [] then None
         else if r = [] then (if 2 \<le> length ws then Some (houseNumber, [last ws]) else None)
         else map_option (Pair houseNumber) (street_of r))"

text \<open>
  The source of the pattern that the template literal builds; house number and street name
  are put in as they are, without escaping.
\<close>

definition backslash :: char where
  "backslash = CHR 0x5C"

definition simpleMatch_source :: "string \<Rightarrow> string \<Rightarrow> string" where
  "simpleMatch_source houseNumber streetName =
     [backslash] @ ''['' @ houseNumber @ [backslash] @ ''s+'' @ streetName
       @ ''[^'' @ [backslash] @ '']]*'' @ [backslash] @ '']'' @ [backslash] @ ''(([^)]+parcel''
       @ [backslash] @ ''.aspx[^)]+)'' @ [backslash] @ '')''"

text \<open>
  \<open>regExpMatch\<close> stands for the regular expression engine on a pattern made at run time:
  from the source of a pattern (compiled with the \<open>i\<close> flag) and the content to the first
  group of the first match, \<open>None\<close> when there is no match; it throws when the source is
  not a pattern.
\<close>

definition second_attempt ::
  "(string \<Rightarrow> string \<Rightarrow> thrown + string option) \<Rightarrow> string \<Rightarrow> string \<Rightarrow> thrown + string option"
  where
  "second_attempt regExpMatch n rawContent =
     (case addressParts n of
        None \<Rightarrow> Inr None
      | Some (houseNumber, streetName) \<Rightarrow>
          regExpMatch (simpleMatch_source houseNumber streetName) rawContent)"


text \<open>All the matches of a link pattern, as \<open>matchAll\<close> with the \<open>g\<close> flag lists them.\<close>

function all_links :: "(string \<Rightarrow> bool) \<Rightarrow> string \<Rightarrow> (string \<times> string) list" where
  "all_links ok [] = []"
| "all_links ok (c # cs) =
     (case link_at ok (c # cs) of
        Some (linkText, linkUrl, rest) \<Rightarrow> (linkText, linkUrl) # all_links ok rest
      | None \<Rightarrow> all_links ok cs)"
  by pat_completeness auto
termination
  by (relation "measure (\<lambda>(ok, s). length s)") (auto dest: link_at_shorter)

section \<open>The zip directory\<close>

record ZipInfo =
  zip :: string
  city :: string
  state_id :: string
  state_name :: string
  county_name :: string
  county_fips :: string

text \<open>
  A row of the spreadsheet as \<open>sheet_to_json\<close> gives it. The zip and the county FIPS code
  may be number or text cells; the other columns are text, as \<open>ZipInfo\<close> declares them.
  An empty cell is absent from the row. A number cell holds a finite number.
\<close>

datatype cell = NoCell | NumCell rat | StrCell string

record ZipRow =
  row_zip :: cell
  row_city :: "string option"
  row_state_id :: "string option"
  row_state_name :: "string option"
  row_county_name :: "string option"
  row_county_fips :: cell

text \<open>
  \<open>Number.prototype.toString\<close>: an integer below \<open>10^21\<close> in absolute value is written
  with all its decimal digits, after a minus sign when it is negative. What the function
  writes for the other numbers (a fraction or an exponent) is left to \<open>otherNumber\<close>.
\<close>

fun dec :: "nat \<Rightarrow> string" where
  "dec n = (if n < 10 then [char_of (48 + n)] else dec (n div 10) @ [char_of (48 + n mod 10)])"

declare dec.simps [simp del]

definition int_toString :: "int \<Rightarrow> string" where
  "int_toString i = (if i < 0 then CHR ''-'' # dec (nat (- i)) else dec (nat i))"

definition number_toString :: "(rat \<Rightarrow> string) \<Rightarrow> rat \<Rightarrow> string" where
  "number_toString otherNumber x =
     (if of_int \<lfloor>x\<rfloor> = x \<and> \<bar>x\<bar> < 10 ^ 21 then int_toString \<lfloor>x\<rfloor> else otherNumber x)"

text \<open>\<open>String.prototype.padStart\<close> with a filler of one code unit.\<close>

definition padStart :: "nat \<Rightarrow> char \<Rightarrow> string \<Rightarrow> string" where
  "padStart n c s = replicate (n - length s) c @ s"

text \<open>
  \<open>typeof row.zip === 'number' ? row.zip.toString().padStart(5, '0')
     : row.zip?.toString() || ''\<close>
\<close>

definition row_key :: "(rat \<Rightarrow> string) \<Rightarrow> ZipRow \<Rightarrow> string" where
  "row_key otherNumber row =
     (case row_zip row of
        NumCell n \<Rightarrow> padStart 5 (CHR ''0'') (number_toString otherNumber n)
      | StrCell s \<Rightarrow> s
      | NoCell \<Rightarrow> [])"

definition cell_toString :: "(rat \<Rightarrow> string) \<Rightarrow> cell \<Rightarrow> string" where
  "cell_toString otherNumber c =
     (case c of
        NumCell n \<Rightarrow> number_toString otherNumber n
      | StrCell s \<Rightarrow> s
      | NoCell \<Rightarrow> [])"

definition or_empty :: "string option \<Rightarrow> string" where
  "or_empty v = (case v of Some s \<Rightarrow> s | None \<Rightarrow> [])"

text \<open>The body of the \<open>forEach\<close>: a row is stored when zip, county and state are truthy.\<close>

definition add_row ::
  "(rat \<Rightarrow> string) \<Rightarrow> (string \<rightharpoonup> ZipInfo) \<Rightarrow> ZipRow \<Rightarrow> (string \<rightharpoonup> ZipInfo)" where
  "add_row otherNumber m row =
     (let zip = row_key otherNumber row in
      if zip \<noteq> [] \<and> or_empty (row_county_name row) \<noteq> [] \<and> or_empty (row_state_id row) \<noteq> []
      then m(zip \<mapsto> \<lparr>zip = zip,
                     city = or_empty (row_city row),
                     state_id = or_empty (row_state_id row),
                     state_name = or_empty (row_state_name row),
                     county_name = or_empty (row_county_name row),
                     county_fips = cell_toString otherNumber (row_county_fips row)\<rparr>)
      else m)"

text \<open>
  The module variable \<open>zipData\<close> is \<open>None\<close> while it is \<open>null\<close>. \<open>initializeZipData\<close>
  has no \<open>await\<close> in its body, so a call runs to its end before it returns; \<open>file\<close> is
  what reading and parsing the spreadsheet gives, \<open>None\<close> when either throws. The result is
  the error thrown (\<open>Inl\<close>) or nothing, the new value of \<open>zipData\<close>, and what the call
  did: the directory is written by the call that finds it unset and reads the table.
\<close>

type_synonym zip_state = "(string \<rightharpoonup> ZipInfo) option"

definition initializeZipData ::
  "(rat \<Rightarrow> string) \<Rightarrow> ZipRow list option \<Rightarrow> zip_state
     \<Rightarrow> (string + unit) \<times> zip_state \<times> event list" where
  "initializeZipData otherNumber file zipData =
     (case zipData of
        Some m \<Rightarrow> (Inr (), zipData, [])
      | None \<Rightarrow>
          (case file of
             None \<Rightarrow> (Inl ''Failed to load ZIP code database'', None, [ZipLoadFailed])
           | Some data \<Rightarrow>
               (Inr (), Some (foldl (add_row otherNumber) Map.empty data), [ZipDataWritten])))"

text \<open>
  \<open>initializeZipData().catch(console.error)\<close> when the route module loads: the state it
  leaves, whether the load failed or not.
\<close>

definition module_load :: "(rat \<Rightarrow> string) \<Rightarrow> ZipRow list option \<Rightarrow> zip_state" where
  "module_load otherNumber file = fst (snd (initializeZipData otherNumber file None))"

definition lookupZip :: "zip_state \<Rightarrow> string \<Rightarrow> string + ZipInfo option" where
  "lookupZip zipData zipcode =
     (case zipData of
        None \<Rightarrow> Inl ''ZIP database not initialized''
      | Some m \<Rightarrow> Inr (m zipcode))"

section \<open>The request handler\<close>

subsection \<open>Responses and the outside world\<close>

record response =
  status :: nat
  body :: "(string \<times> json) list"

text \<open>\<open>NextResponse.json({ error: msg }, { status: st })\<close>.\<close>

definition error_response :: "nat \<Rightarrow> string \<Rightarrow> response" where
  "error_response st msg = \<lparr>status = st, body = [(''error'', JStr msg)]\<rparr>"

text \<open>A search result of the provider.\<close>

record candidate =
  title :: string
  url :: string
  content :: string
  rawContent :: "string option"
  score :: rat

text \<open>
  The outside of the handler, one field for each remote call or library function:
  \<^item> \<open>request\<close>: the \<open>address\<close> of the request body, or what is thrown when the body is not
    JSON or the address is not a string;
  \<^item> \<open>search\<close>: \<open>client.search\<close> on a query, giving \<open>results\<close> or throwing;
  \<^item> \<open>firstCompletion\<close>: the content of the first completion (\<open>None\<close> is \<open>null\<close>), for the
    search address and the candidate the prompt is built from;
  \<^item> \<open>JSON_parse\<close>: \<open>JSON.parse\<close>, \<open>None\<close> when it throws;
  \<^item> \<open>extractLink\<close>: \<open>client.extract\<close> on a link, giving the raw content of its first result
    (\<open>None\<close> when there is none) or throwing;
  \<^item> \<open>secondCompletion\<close>: the content of the second completion.
\<close>

record world =
  request :: "thrown + string"
  search :: "string \<Rightarrow> thrown + candidate list"
  firstCompletion :: "string \<Rightarrow> candidate \<Rightarrow> thrown + string option"
  JSON_parse :: "string \<Rightarrow> json option"
  extractLink :: "json \<Rightarrow> thrown + string option"
  secondCompletion :: "second_input \<Rightarrow> thrown + string option"

text \<open>What is fixed once location and candidate are known.\<close>

record request_context =
  ctx_zipcode :: string
  ctx_locationInfo :: ZipInfo
  ctx_searchUrl :: string
  ctx_searchAddress :: string
  ctx_resultToUse :: candidate

text \<open>The success payload, with status 200.\<close>

definition success_response :: "request_context \<Rightarrow> json list \<Rightarrow> response" where
  "success_response c transactions =
     \<lparr>status = 200,
      body = [(''zipcode'', JStr (ctx_zipcode c)),
              (''city'', JStr (city (ctx_locationInfo c))),
              (''county'', JStr (county_name (ctx_locationInfo c))),
              (''state'', JStr (state_name (ctx_locationInfo c))),
              (''state_id'', JStr (state_id (ctx_locationInfo c))),
              (''county_fips'', JStr (county_fips (ctx_locationInfo c))),
              (''searchUrl'', JStr (ctx_searchUrl c)),
              (''transactions'', JArr transactions)]\<rparr>"

subsection \<open>Candidate selection\<close>

text \<open>
  \<open>results.sort((a, b) => b.score - a.score)\<close>: a stable sort by falling score, in place,
  so that the later \<open>filter\<close> runs on the sorted results.
\<close>

definition sort_by_score :: "candidate list \<Rightarrow> candidate list" where
  "sort_by_score results = sort_key (\<lambda>r. - score r) results"

definition address_in_content :: "string \<Rightarrow> candidate \<Rightarrow> bool" where
  "address_in_content searchAddress result =
     str_includes (toLowerCase (content result)) (toLowerCase searchAddress)"

definition select_result :: "string \<Rightarrow> candidate list \<Rightarrow> candidate option" where
  "select_result searchAddress results =
     (case sort_by_score results of
        [] \<Rightarrow> None
      | bestMatch # rest \<Rightarrow>
          (case filter (address_in_content searchAddress) (bestMatch # rest) of
             [] \<Rightarrow> Some bestMatch
           | m # ms \<Rightarrow> Some m))"

subsection \<open>The branches on the first completion\<close>

text \<open>
  The second completion, its parse and the response made of it. The first component is the
  response, or what is thrown inside the inner \<open>try\<close>.
\<close>

definition second_pass ::
  "world \<Rightarrow> request_context \<Rightarrow> second_input \<Rightarrow> (thrown + response) \<times> event list" where
  "second_pass w c inp =
     (case secondCompletion w inp of
        Inl e \<Rightarrow> (Inl e, [SecondCompletionCall inp])
      | Inr None \<Rightarrow>
          (Inl (ErrorObj ''No content received from second AI model call''),
           [SecondCompletionCall inp])
      | Inr (Some newContent) \<Rightarrow>
          if newContent = [] then
            (Inl (ErrorObj ''No content received from second AI model call''),
             [SecondCompletionCall inp])
          else
            (case JSON_parse w newContent of
               None \<Rightarrow> (Inl (ErrorObj ''SyntaxError''), [SecondCompletionCall inp])
             | Some (JArr (t # ts)) \<Rightarrow>
                 (Inr (success_response c (t # ts)), [SecondCompletionCall inp])
             | Some _ \<Rightarrow> (Inr (success_response c []), [SecondCompletionCall inp])))"

text \<open>The normalisation of both addresses in the \<open>find\<close> of the Type 2 branch.\<close>

definition normalize_for_match :: "string \<Rightarrow> string" where
  "normalize_for_match s =
     trim (collapse_ws (replace_ws_suffix ''rd'' '' rd''
       (replace_ws_suffix ''road'' '' rd'' (toLowerCase s))))"

text \<open>
  The predicate of the \<open>find\<close> on one item: reading \<open>address\<close> of \<open>null\<close> throws, and so
  does \<open>toLowerCase\<close> on a truthy address that is not a string.
\<close>

definition item_matches :: "string \<Rightarrow> json \<Rightarrow> thrown + bool" where
  "item_matches searchAddress item =
     (case item of
        JNull \<Rightarrow> Inl (ErrorObj ''TypeError'')
      | _ \<Rightarrow>
          if \<not> truthy (member item ''address'') then Inr False
          else (case member item ''address'' of
                  Some (JStr a) \<Rightarrow> Inr (normalize_for_match searchAddress = normalize_for_match a)
                | _ \<Rightarrow> Inl (ErrorObj ''TypeError'')))"

fun find_matching :: "string \<Rightarrow> json list \<Rightarrow> thrown + json option" where
  "find_matching searchAddress [] = Inr None"
| "find_matching searchAddress (item # items) =
     (case item_matches searchAddress item of
        Inl e \<Rightarrow> Inl e
      | Inr True \<Rightarrow> Inr (Some item)
      | Inr False \<Rightarrow> find_matching searchAddress items)"

definition type2_branch ::
  "world \<Rightarrow> request_context \<Rightarrow> json list \<Rightarrow> (thrown + response) \<times> event list" where
  "type2_branch w c parsedData =
     (case find_matching (ctx_searchAddress c) parsedData of
        Inl e \<Rightarrow> (Inl e, [ProcessingType2])
      | Inr matchingResult \<Rightarrow>
          (case (case matchingResult of None \<Rightarrow> None | Some item \<Rightarrow> member item ''link'') of
             None \<Rightarrow>
               (Inl (ErrorObj ''No matching link found for the search address''), [ProcessingType2])
           | Some link \<Rightarrow>
               if \<not> truthy (Some link) then
                 (Inl (ErrorObj ''No matching link found for the search address''),
                  [ProcessingType2])
               else
                 (case extractLink w link of
                    Inl e \<Rightarrow> (Inl e, [ProcessingType2, ExtractCall link])
                  | Inr None \<Rightarrow>
                      (Inl (ErrorObj ''No content extracted from the link''),
                       [ProcessingType2, ExtractCall link])
                  | Inr (Some raw) \<Rightarrow>
                      if raw = [] then
                        (Inl (ErrorObj ''No content extracted from the link''),
                         [ProcessingType2, ExtractCall link])
                      else
                        (let (r, evs) = second_pass w c (ExtractedContent raw)
                         in (r, [ProcessingType2, ExtractCall link] @ evs)))))"

text \<open>
  The later \<open>else if (responseType === 'Type 3')\<close> branch, which reads the address of the
  first item of the parsed data.
\<close>

definition type3_branch ::
  "world \<Rightarrow> request_context \<Rightarrow> json \<Rightarrow> (thrown + response) \<times> event list" where
  "type3_branch w c first =
     (case member first ''address'' of
        None \<Rightarrow> (Inl (ErrorObj ''No address found in Type 3 response''), [ProcessingType3])
      | Some address \<Rightarrow>
          if \<not> truthy (Some address) then
            (Inl (ErrorObj ''No address found in Type 3 response''), [ProcessingType3])
          else
            (let (r, evs) = second_pass w c (ContentAddress address)
             in (r, ProcessingType3 # evs)))"

text \<open>
  The direct link detection, run when the first completion gave an empty array and the
  candidate has raw content: the parsed data is replaced by a Type 2 answer when a link with
  the target address is found.
\<close>

definition direct_link :: "string \<Rightarrow> string \<Rightarrow> json list" where
  "direct_link searchAddress raw =
     (let matches = all_links https_parcel_pid_url raw;
          targetAddress = normalizedSearchAddress searchAddress
      in case find (\<lambda>(linkText, linkUrl).
                      trim (collapse_ws (toLowerCase linkText)) = targetAddress) matches of
           Some (linkText, linkUrl) \<Rightarrow>
             [JObj [(''type'', JStr ''Type 2'')],
              JObj [(''address'', JStr linkText), (''link'', JStr linkUrl)]]
         | None \<Rightarrow> [])"

text \<open>The chain of tests on \<open>responseType\<close>, in the order of the source.\<close>

definition dispatch ::
  "world \<Rightarrow> request_context \<Rightarrow> json \<Rightarrow> (thrown + response) \<times> event list" where
  "dispatch w c parsedData =
     (case parsedData of
        JArr (first # others) \<Rightarrow>
          (let responseType = member first ''type'' in
           if responseType = Some (JStr ''Type 1'') then
             (Inr (success_response c others), [ProcessingType1])
           else if responseType = Some (JStr ''Type 2'') \<or> responseType = Some (JStr ''Type 3'') then
             type2_branch w c (first # others)
           else if responseType = Some (JStr ''Type 3'') then
             type3_branch w c first
           else (Inr (success_response c []), [NoValidResponseType]))
      | _ \<Rightarrow> (Inr (success_response c []), [NoValidResponseType]))"

text \<open>The body of the inner \<open>try\<close> around \<open>JSON.parse(content)\<close>.\<close>

definition process_content ::
  "world \<Rightarrow> request_context \<Rightarrow> string \<Rightarrow> (thrown + response) \<times> event list" where
  "process_content w c aiContent =
     (case JSON_parse w aiContent of
        None \<Rightarrow> (Inl (ErrorObj ''SyntaxError''), [])
      | Some parsedData \<Rightarrow>
          (case (parsedData, rawContent (ctx_resultToUse c)) of
             (JArr [], Some (r # rs)) \<Rightarrow>
               (let (res, evs) = dispatch w c (JArr (direct_link (ctx_searchAddress c) (r # rs)))
                in (res, DirectLinkDetection # evs))
           | _ \<Rightarrow> dispatch w c parsedData))"

text \<open>
  From the first completion on: the inner \<open>catch\<close> turns whatever is thrown while the
  content is processed into the parse error, and the \<open>catch\<close> around it answers 500 with
  the message of the error.
\<close>

definition process_candidate :: "world \<Rightarrow> request_context \<Rightarrow> response \<times> event list" where
  "process_candidate w c =
     (case firstCompletion w (ctx_searchAddress c) (ctx_resultToUse c) of
        Inl e \<Rightarrow> (error_response 500 (errorMessage e), [FirstCompletionCall])
      | Inr None \<Rightarrow>
          (error_response 500 ''No content received from AI model'', [FirstCompletionCall])
      | Inr (Some aiContent) \<Rightarrow>
          if aiContent = [] then
            (error_response 500 ''No content received from AI model'', [FirstCompletionCall])
          else
            (case process_content w c aiContent of
               (Inl e, evs) \<Rightarrow>
                 (error_response 500 ''Failed to parse AI response as JSON'',
                  FirstCompletionCall # evs)
             | (Inr resp, evs) \<Rightarrow> (resp, FirstCompletionCall # evs)))"

subsection \<open>POST\<close>

definition make_searchUrl :: "ZipInfo \<Rightarrow> string" where
  "make_searchUrl locationInfo =
     ''https://gis.vgsi.com/'' @ remove_ws (toLowerCase (city locationInfo))
       @ toLowerCase (state_id locationInfo) @ ''/search.aspx''"

definition search_query :: "string \<Rightarrow> string" where
  "search_query searchAddress = searchAddress @ '' property sale history transactions''"

definition POST :: "world \<Rightarrow> zip_state \<Rightarrow> response \<times> event list" where
  "POST w zipData =
     (case request w of
        Inl e \<Rightarrow> (error_response 500 (errorMessage e), [])
      | Inr address \<Rightarrow>
          (case extractZipcode address of
             None \<Rightarrow> (error_response 400 ''Could not extract zipcode from address'', [])
           | Some zipcode \<Rightarrow>
               (let searchAddress = removeZipcode address in
                case lookupZip zipData zipcode of
                  Inl msg \<Rightarrow> (error_response 500 msg, [LookupZipCall zipcode, ZipNotInitialized])
                | Inr None \<Rightarrow>
                    (error_response 404 ''County information not found for this zipcode'',
                     [LookupZipCall zipcode])
                | Inr (Some locationInfo) \<Rightarrow>
                    (let searchUrl = make_searchUrl locationInfo;
                         q = search_query searchAddress in
                     case search w q of
                       Inl e \<Rightarrow>
                         (error_response 500 (errorMessage e), [LookupZipCall zipcode, SearchCall q])
                     | Inr results \<Rightarrow>
                         (case select_result searchAddress results of
                            None \<Rightarrow>
                              (error_response 404 ''No property records found for this address'',
                               [LookupZipCall zipcode, SearchCall q])
                          | Some resultToUse \<Rightarrow>
                              (let (resp, evs) =
                                     process_candidate w
                                       \<lparr>ctx_zipcode = zipcode, ctx_locationInfo = locationInfo,
                                        ctx_searchUrl = searchUrl, ctx_searchAddress = searchAddress,
                                        ctx_resultToUse = resultToUse\<rparr>
                               in (resp, [LookupZipCall zipcode, SearchCall q] @ evs)))))))"

text \<open>
  A request served by a process whose module was loaded from \<open>file\<close>, and a whole
  process: the module is loaded once, its handler then serves the requests one after the
  other on the module variable as the load left it. The result is the responses and what the
  process did, in order.
\<close>

definition serve ::
  "(rat \<Rightarrow> string) \<Rightarrow> ZipRow list option \<Rightarrow> world \<Rightarrow> response \<times> event list" where
  "serve otherNumber file w = POST w (module_load otherNumber file)"

definition process ::
  "(rat \<Rightarrow> string) \<Rightarrow> ZipRow list option \<Rightarrow> world list \<Rightarrow> response list \<times> event list" where
  "process otherNumber file ws =
     (let (loaded, zipData, evs) = initializeZipData otherNumber file None;
          runs = map (\<lambda>w. POST w zipData) ws
      in (map fst runs, evs @ concat (map snd runs)))"

section \<open>Auxiliary notions for the proofs\<close>

text \<open>
  Auxiliary notions for the proofs about \<open>zip_search\<close>: the code unit before a position
  reached after consuming \<open>p\<close>, and the absence of a word character there.
\<close>

definition prev_at :: "char option \<Rightarrow> string \<Rightarrow> char option" where
  "prev_at prev p = (if p = [] then prev else Some (last p))"

definition nonword_opt :: "char option \<Rightarrow> bool" where
  "nonword_opt p = (case p of None \<Rightarrow> True | Some c \<Rightarrow> \<not> is_word c)"

text \<open>
  The transactions of a success response are never made up: the list is empty, or it is the
  tail of the array parsed from a first completion, or the array parsed from a second one.
\<close>

definition from_completions :: "world \<Rightarrow> json list \<Rightarrow> bool" where
  "from_completions w ts =
     (ts = []
      \<or> (\<exists>sa cand s first. firstCompletion w sa cand = Inr (Some s)
            \<and> JSON_parse w s = Some (JArr (first # ts)))
      \<or> (\<exists>inp s. secondCompletion w inp = Inr (Some s) \<and> JSON_parse w s = Some (JArr ts)))"

text \<open>
  A sample run: a directory of one row, a candidate without raw content, and an outside
  world whose first completion answers with the empty array. The table holds integers only,
  so that what is written for other numbers does not matter.
\<close>

definition example_otherNumber :: "rat \<Rightarrow> string" where
  "example_otherNumber x = ''NaN''"

definition example_rows :: "ZipRow list" where
  "example_rows =
     [\<lparr>row_zip = NumCell 6824, row_city = Some ''Fairfield'', row_state_id = Some ''CT'',
       row_state_name = Some ''Connecticut'', row_county_name = Some ''Fairfield'',
       row_county_fips = NumCell 9001\<rparr>]"

definition example_info :: ZipInfo where
  "example_info =
     \<lparr>zip = ''06824'', city = ''Fairfield'', state_id = ''CT'', state_name = ''Connecticut'',
      county_name = ''Fairfield'', county_fips = ''9001''\<rparr>"

definition example_candidate :: candidate where
  "example_candidate =
     \<lparr>title = ''Fairfield, CT'', url = ''https://gis.vgsi.com/fairfieldct/Streets.aspx'',
      content = ''8 LYNNBROOK ROAD'', rawContent = None, score = 9 / 10\<rparr>"

definition example_world :: world where
  "example_world =
     \<lparr>request = Inr ''8 Lynnbrook Road, 06824'',
      search = (\<lambda>q. Inr [example_candidate]),
      firstCompletion = (\<lambda>searchAddress c. Inr (Some ''[]'')),
      JSON_parse = (\<lambda>s. if s = ''[]'' then Some (JArr []) else None),
      extractLink = (\<lambda>link. Inl NonError),
      secondCompletion = (\<lambda>inp. Inl NonError)\<rparr>"

definition example_context :: request_context where
  "example_context =
     \<lparr>ctx_zipcode = ''06824'', ctx_locationInfo = example_info,
      ctx_searchUrl = ''https://gis.vgsi.com/fairfieldct/search.aspx'',
      ctx_searchAddress = ''8 Lynnbrook Road'', ctx_resultToUse = example_candidate\<rparr>"

definition example_follow_world :: world where
  "example_follow_world =
     example_world\<lparr>extractLink := (\<lambda>link. Inr (Some ''Ownership History'')),
                   secondCompletion := (\<lambda>inp. Inr (Some ''[]''))\<rparr>"

definition example_type3_answer :: "json list" where
  "example_type3_answer =
     [JObj [(''type'', JStr ''Type 3'')],
      JObj [(''address'', JStr ''8 LYNNBROOK RD''),
            (''link'', JStr ''https://gis.vgsi.com/fairfieldct/Parcel.aspx?pid=2271'')]]"



text \<open>A second candidate, with the higher score and without the address in its content.\<close>

definition example_other_candidate :: candidate where
  "example_other_candidate =
     \<lparr>title = ''Fairfield, CT'', url = ''https://gis.vgsi.com/fairfieldct/'',
      content = ''Assessor database'', rawContent = None, score = 95 / 100\<rparr>"

text \<open>A row whose zip is a text cell of four digits.\<close>

definition example_text_row :: ZipRow where
  "example_text_row =
     \<lparr>row_zip = StrCell ''6824'', row_city = Some ''Fairfield'', row_state_id = Some ''CT'',
      row_state_name = Some ''Connecticut'', row_county_name = Some ''Fairfield'',
      row_county_fips = NumCell 9001\<rparr>"

text \<open>
  The content of a candidate contains the search address: the lower-cased address is a
  substring of the lower-cased content.
\<close>

definition contains_address :: "string \<Rightarrow> candidate \<Rightarrow> bool" where
  "contains_address searchAddress result =
     (\<exists>p q. toLowerCase (content result) = p @ toLowerCase searchAddress @ q)"



text \<open>The steps that the handler takes once a candidate is selected.\<close>

definition handler_steps :: "event set" where
  "handler_steps =
     {FirstCompletionCall, DirectLinkDetection, ProcessingType1, ProcessingType2,
      NoValidResponseType} \<union> range ExtractCall \<union> range SecondCompletionCall"












section \<open>Properties of extractZipcode\<close>

lemma is_digit_word: "is_digit c \<Longrightarrow> is_word c"
  by (simp add: is_digit_def is_word_def)

lemma dash_not_digit: "\<not> is_digit (CHR ''-'')"
  by (simp add: is_digit_def code_def)

lemma wb_word_left: "is_word c \<Longrightarrow> word_boundary prev (c # r) = nonword_opt prev"
  by (auto simp: word_boundary_def nonword_opt_def split: option.splits)

lemma wb_word_right: "is_word c \<Longrightarrow> word_boundary (Some c) q = (q = [] \<or> \<not> is_word (hd q))"
  by (auto simp: word_boundary_def split: list.splits)

lemma len5: "length d = 5 \<Longrightarrow> \<exists>a b c e f. d = [a,b,c,e,f]"
  by (auto simp: length_Suc_conv eval_nat_numeral)

lemma len4: "length d = 4 \<Longrightarrow> \<exists>a b c e. d = [a,b,c,e]"
  by (auto simp: length_Suc_conv eval_nat_numeral)

lemma nine_tail:
  "(5 \<le> length r \<and> r ! 0 = CHR ''-'' \<and> list_all is_digit (take 4 (drop 1 r))
      \<and> word_boundary (Some (r ! 4)) (drop 5 r))
   = (\<exists>e t. length e = 4 \<and> r = CHR ''-'' # e @ t \<and> list_all is_digit e
        \<and> (t = [] \<or> \<not> is_word (hd t)))" (is "?L = ?R")
proof
  assume L: ?L
  define e where "e = take 4 (drop 1 r)"
  define t where "t = drop 5 r"
  from L have len: "length e = 4" by (auto simp: e_def)
  from L have r: "r = CHR ''-'' # e @ t"
    by (cases r) (auto simp: e_def t_def)
  from len obtain w x y z where e: "e = [w,x,y,z]" using len4 by blast
  from L have dig: "list_all is_digit e" by (simp add: e_def)
  have "r ! 4 = z" using r e by simp
  moreover have "is_word z" using dig e by (simp add: is_digit_word)
  ultimately have "t = [] \<or> \<not> is_word (hd t)"
    using L wb_word_right[of z t] by (simp add: t_def)
  with len r dig show ?R by blast
next
  assume ?R
  then obtain e t where len: "length e = 4" and r: "r = CHR ''-'' # e @ t"
    and dig: "list_all is_digit e" and t: "t = [] \<or> \<not> is_word (hd t)" by blast
  from len obtain w x y z where e: "e = [w,x,y,z]" using len4 by blast
  have "is_word z" using dig e by (simp add: is_digit_word)
  then show ?L using r e dig t wb_word_right[of z t] by simp
qed

lemma zip_match_at_five:
  assumes "length d = 5"
  shows "zip_match_at prev (d @ r) =
     (if nonword_opt prev \<and> list_all is_digit d then
        (if \<exists>e t. length e = 4 \<and> r = CHR ''-'' # e @ t \<and> list_all is_digit e \<and> (t = [] \<or> \<not> is_word (hd t))
         then Some (d @ take 5 r)
         else if r = [] \<or> \<not> is_word (hd r) then Some d else None)
      else None)"
proof -
  from assms obtain a b c e f where d: "d = [a,b,c,e,f]" using len5 by blast
  show ?thesis
  proof (cases "list_all is_digit d")
    case False
    then show ?thesis using assms by (simp add: zip_match_at_def)
  next
    case True
    then have wa: "is_word a" and wf: "is_word f" using d by (simp_all add: is_digit_word)
    have 1: "word_boundary prev (d @ r) = nonword_opt prev"
      using wb_word_left[OF wa] d by simp
    have 2: "word_boundary (Some ((d @ r) ! 4)) r = (r = [] \<or> \<not> is_word (hd r))"
      using wb_word_right[OF wf] d by simp
    have t: "take 5 (d @ r) = d" "drop 5 (d @ r) = r" "5 \<le> length (d @ r)"
      "take 10 (d @ r) = d @ take 5 r"
      using assms by simp_all
    show ?thesis
      unfolding zip_match_at_def Let_def t 1 2 nine_tail
      using True assms by simp
  qed
qed

lemma zip_match_at_short: "length s < 5 \<Longrightarrow> zip_match_at prev s = None"
  by (simp add: zip_match_at_def)

lemma zip_match_at_sound:
  assumes "zip_match_at prev s = Some z"
  shows "\<exists>q. s = z @ q \<and> zip_shape z \<and> nonword_opt prev \<and> (q = [] \<or> \<not> is_word (hd q))"
proof -
  have "5 \<le> length s" using assms zip_match_at_short[of s prev] by (cases "length s < 5") auto
  define d r where "d = take 5 s" and "r = drop 5 s"
  have s: "s = d @ r" and ld: "length d = 5" using \<open>5 \<le> length s\<close> by (simp_all add: d_def r_def)
  note eq = zip_match_at_five[OF ld, of prev r]
  show ?thesis
  proof (cases "\<exists>e t. length e = 4 \<and> r = CHR ''-'' # e @ t \<and> list_all is_digit e \<and> (t = [] \<or> \<not> is_word (hd t))")
    case True
    then obtain e t where e: "length e = 4" "r = CHR ''-'' # e @ t" "list_all is_digit e" "t = [] \<or> \<not> is_word (hd t)"
      by blast
    from assms eq True s have z: "z = d @ take 5 r" and p: "nonword_opt prev" and dd: "list_all is_digit d"
      by (auto split: if_splits)
    have z': "z = d @ CHR ''-'' # e" using z e by simp
    have "zip_shape z" using z' ld e dd by (simp add: zip_shape_def nth_append)
    moreover have "s = z @ t" using s z' e by simp
    ultimately show ?thesis using p e(4) by blast
  next
    case False
    from assms eq False s have z: "z = d" and p: "nonword_opt prev" and dd: "list_all is_digit d"
      and q: "r = [] \<or> \<not> is_word (hd r)"
      by (auto split: if_splits)
    have "zip_shape z" using z ld dd by (simp add: zip_shape_def)
    then show ?thesis using s z p q by blast
  qed
qed

lemma zip_shape_cases:
  assumes "zip_shape z"
  obtains (five) "length z = 5" "list_all is_digit z"
  | (nine) d e where "z = d @ CHR ''-'' # e" "length d = 5" "length e = 4" "list_all is_digit d" "list_all is_digit e"
proof -
  from assms consider "length z = 5 \<and> list_all is_digit z"
    | "length z = 10 \<and> list_all is_digit (take 5 z) \<and> z ! 5 = CHR ''-'' \<and> list_all is_digit (drop 6 z)"
    by (auto simp: zip_shape_def)
  then show thesis
  proof cases
    case 1 then show ?thesis using five by blast
  next
    case 2
    have "z = take 5 z @ z ! 5 # drop 6 z"
      using 2 id_take_nth_drop[of 5 z] by simp
    then show ?thesis using nine[of "take 5 z" "drop 6 z"] 2 by simp
  qed
qed

lemma zip_match_at_complete:
  assumes "zip_shape z" "nonword_opt prev" "q = [] \<or> \<not> is_word (hd q)"
  shows "\<exists>z'. zip_match_at prev (z @ q) = Some z' \<and> length z \<le> length z'"
  using assms(1)
proof (cases rule: zip_shape_cases)
  case five
  then show ?thesis using zip_match_at_five[of z prev q] assms by auto
next
  case (nine d e)
  have "\<exists>e' t. length e' = 4 \<and> CHR ''-'' # e @ q = CHR ''-'' # e' @ t \<and> list_all is_digit e' \<and> (t = [] \<or> \<not> is_word (hd t))"
    using nine assms(3) by blast
  then show ?thesis using zip_match_at_five[of d prev "CHR ''-'' # e @ q"] assms nine by simp
qed

lemma zip_match_at_longest:
  assumes "zip_match_at prev s = Some z" "s = z' @ q'" "zip_shape z'" "q' = [] \<or> \<not> is_word (hd q')"
  shows "length z' \<le> length z"
proof -
  from zip_match_at_sound[OF assms(1)] have "nonword_opt prev" by blast
  from zip_match_at_complete[OF assms(3) this assms(4)] assms(1,2) show ?thesis by auto
qed

lemma prev_at_Cons: "prev_at (Some c) p = prev_at prev (c # p)"
  by (simp add: prev_at_def)

lemma zip_search_None:
  "zip_search prev s = None \<longleftrightarrow> (\<forall>p r. s = p @ r \<longrightarrow> zip_match_at (prev_at prev p) r = None)"
proof (induction s arbitrary: prev)
  case Nil
  then show ?case by (simp add: prev_at_def)
next
  case (Cons c cs)
  show ?case
  proof
    assume L: "zip_search prev (c # cs) = None"
    then have h: "zip_match_at prev (c # cs) = None" and t: "zip_search (Some c) cs = None"
      by (auto split: option.splits)
    show "\<forall>p r. c # cs = p @ r \<longrightarrow> zip_match_at (prev_at prev p) r = None"
    proof (intro allI impI)
      fix p r assume e: "c # cs = p @ r"
      show "zip_match_at (prev_at prev p) r = None"
      proof (cases p)
        case Nil
        then show ?thesis using e h by (simp add: prev_at_def)
      next
        case (Cons x p')
        then have "cs = p' @ r" "x = c" using e by simp_all
        with t Cons.IH[of "Some c"] have "zip_match_at (prev_at (Some c) p') r = None" by blast
        then show ?thesis using Cons \<open>x = c\<close> by (simp add: prev_at_Cons[of c p' prev])
      qed
    qed
  next
    assume R: "\<forall>p r. c # cs = p @ r \<longrightarrow> zip_match_at (prev_at prev p) r = None"
    from R[rule_format, of "[]" "c # cs"] have h: "zip_match_at prev (c # cs) = None"
      by (simp add: prev_at_def)
    have "\<forall>p r. cs = p @ r \<longrightarrow> zip_match_at (prev_at (Some c) p) r = None"
    proof (intro allI impI)
      fix p r assume "cs = p @ r"
      then have "c # cs = (c # p) @ r" by simp
      from R[rule_format, OF this] show "zip_match_at (prev_at (Some c) p) r = None"
        by (simp add: prev_at_Cons[of c p prev])
    qed
    then have "zip_search (Some c) cs = None" using Cons.IH[of "Some c"] by blast
    with h show "zip_search prev (c # cs) = None" by simp
  qed
qed

lemma zip_search_Some:
  "zip_search prev s = Some z \<Longrightarrow>
     \<exists>p r. s = p @ r \<and> zip_match_at (prev_at prev p) r = Some z
       \<and> (\<forall>p' r'. s = p' @ r' \<and> length p' < length p \<longrightarrow> zip_match_at (prev_at prev p') r' = None)"
proof (induction s arbitrary: prev)
  case Nil
  then show ?case by (simp add: prev_at_def)
next
  case (Cons c cs)
  show ?case
  proof (cases "zip_match_at prev (c # cs)")
    case (Some z')
    then have "z' = z" using Cons.prems by simp
    then have "c # cs = [] @ (c # cs) \<and> zip_match_at (prev_at prev []) (c # cs) = Some z"
      using Some by (simp add: prev_at_def)
    moreover have "\<forall>p' r'. c # cs = p' @ r' \<and> length p' < length ([] :: string)
        \<longrightarrow> zip_match_at (prev_at prev p') r' = None" by simp
    ultimately show ?thesis by blast
  next
    case None
    then have "zip_search (Some c) cs = Some z" using Cons.prems by simp
    from Cons.IH[OF this] obtain p r where pr: "cs = p @ r"
      "zip_match_at (prev_at (Some c) p) r = Some z"
      "\<forall>p' r'. cs = p' @ r' \<and> length p' < length p \<longrightarrow> zip_match_at (prev_at (Some c) p') r' = None"
      by blast
    have 1: "c # cs = (c # p) @ r" using pr(1) by simp
    have 2: "zip_match_at (prev_at prev (c # p)) r = Some z"
      using pr(2) by (simp add: prev_at_Cons[of c p prev])
    have 3: "\<forall>p' r'. c # cs = p' @ r' \<and> length p' < length (c # p) \<longrightarrow> zip_match_at (prev_at prev p') r' = None"
    proof (intro allI impI)
      fix p' r' assume a: "c # cs = p' @ r' \<and> length p' < length (c # p)"
      show "zip_match_at (prev_at prev p') r' = None"
      proof (cases p')
        case Nil
        then show ?thesis using a None by (simp add: prev_at_def)
      next
        case (Cons x p'')
        then have "cs = p'' @ r' \<and> length p'' < length p" "x = c" using a by simp_all
        with pr(3) have "zip_match_at (prev_at (Some c) p'') r' = None" by blast
        then show ?thesis using Cons \<open>x = c\<close> by (simp add: prev_at_Cons[of c p'' prev])
      qed
    qed
    from 1 2 3 show ?thesis by blast
  qed
qed

lemma bounded_in_iff:
  "bounded_in p q \<longleftrightarrow> nonword_opt (prev_at None p) \<and> (q = [] \<or> \<not> is_word (hd q))"
  by (simp add: bounded_in_def nonword_opt_def prev_at_def)

text \<open>
  Claim C1, as amended. \<open>extractZipcode\<close> returns the leftmost substring of the address
  that has the shape \<open>\d{5}(-\d{4})?\<close> and stands between word boundaries (no letter,
  digit or underscore directly before or after it); at that position the nine-digit form is
  preferred when it is so delimited. It returns nothing exactly when the address has no
  such delimited substring.
\<close>

theorem extractZipcode_first_bounded_match:
  "(extractZipcode a = None \<longleftrightarrow> (\<forall>p z q. \<not> zip_occurrence a p z q))
   \<and> (\<forall>z. extractZipcode a = Some z \<longrightarrow>
        (\<exists>p q. zip_occurrence a p z q
           \<and> (\<forall>p' z' q'. zip_occurrence a p' z' q' \<longrightarrow>
                 length p \<le> length p' \<and> (length p' = length p \<longrightarrow> length z' \<le> length z))))"
proof -
  have occ_match: "\<exists>z'. zip_match_at (prev_at None p) (z @ q) = Some z' \<and> length z \<le> length z'"
    if "zip_occurrence a p z q" for p z q
    using that zip_match_at_complete[of z "prev_at None p" q]
    by (simp add: zip_occurrence_def bounded_in_iff)
  have some: "\<exists>p q. zip_occurrence a p z q
           \<and> (\<forall>p' z' q'. zip_occurrence a p' z' q' \<longrightarrow>
                 length p \<le> length p' \<and> (length p' = length p \<longrightarrow> length z' \<le> length z))"
    if ez: "extractZipcode a = Some z" for z
  proof -
    from ez zip_search_Some[of None a z] obtain p r where pr: "a = p @ r"
      "zip_match_at (prev_at None p) r = Some z"
      "\<forall>p' r'. a = p' @ r' \<and> length p' < length p \<longrightarrow> zip_match_at (prev_at None p') r' = None"
      by (auto simp: extractZipcode_def)
    from zip_match_at_sound[OF pr(2)] obtain q where q: "r = z @ q" "zip_shape z"
      "nonword_opt (prev_at None p)" "q = [] \<or> \<not> is_word (hd q)" by blast
    have occ: "zip_occurrence a p z q"
      using pr(1) q by (simp add: zip_occurrence_def bounded_in_iff)
    have "length p \<le> length p' \<and> (length p' = length p \<longrightarrow> length z' \<le> length z)"
      if o': "zip_occurrence a p' z' q'" for p' z' q'
    proof -
      from o' have a': "a = p' @ z' @ q'" and sh: "zip_shape z'"
        and qb: "q' = [] \<or> \<not> is_word (hd q')"
        by (simp_all add: zip_occurrence_def bounded_in_def)
      from occ_match[OF o'] obtain y where y: "zip_match_at (prev_at None p') (z' @ q') = Some y" by blast
      have le: "length p \<le> length p'"
      proof (rule ccontr)
        assume "\<not> length p \<le> length p'"
        then have "length p' < length p" by simp
        with pr(3) a' have "zip_match_at (prev_at None p') (z' @ q') = None" by blast
        with y show False by simp
      qed
      have "length z' \<le> length z" if "length p' = length p"
      proof -
        from that pr(1) a' have "p' = p" "r = z' @ q'" by (auto simp: append_eq_append_conv)
        then show ?thesis using zip_match_at_longest[OF pr(2) _ sh qb] by simp
      qed
      with le show ?thesis by simp
    qed
    with occ show ?thesis by blast
  qed
  have none: "extractZipcode a = None \<longleftrightarrow> (\<forall>p z q. \<not> zip_occurrence a p z q)"
  proof
    assume n: "extractZipcode a = None"
    show "\<forall>p z q. \<not> zip_occurrence a p z q"
    proof (intro allI notI)
      fix p z q assume o: "zip_occurrence a p z q"
      then have "a = p @ (z @ q)" by (simp add: zip_occurrence_def)
      with n zip_search_None[of None a] have "zip_match_at (prev_at None p) (z @ q) = None"
        by (simp add: extractZipcode_def)
      with occ_match[OF o] show False by simp
    qed
  next
    assume "\<forall>p z q. \<not> zip_occurrence a p z q"
    with some show "extractZipcode a = None" by (cases "extractZipcode a") auto
  qed
  from none some show ?thesis by blast
qed

text \<open>The theorem at the address \<open>a 06824\<close>, whose zip is found and occurs in it.\<close>

theorem extractZipcode_first_bounded_match_witness:
  "extractZipcode ''a 06824'' = Some ''06824'' \<and> (\<exists>p q. ''a 06824'' = p @ ''06824'' @ q)"
proof -
  have e: "extractZipcode ''a 06824'' = Some ''06824''"
    by (simp add: extractZipcode_def zip_match_at_def word_boundary_def is_word_def
        is_digit_def code_def)
  from extractZipcode_first_bounded_match[of "''a 06824''"] e
  obtain p q where "zip_occurrence ''a 06824'' p ''06824'' q" by blast
  then have "''a 06824'' = p @ ''06824'' @ q" by (simp add: zip_occurrence_def)
  with e show ?thesis by blast
qed

text \<open>
  Claim C1 as stated fails: \<open>123456\<close> contains the five-digit substring \<open>12345\<close>, yet no
  zip is extracted from it, since a digit follows the substring.
\<close>

theorem extractZipcode_unbounded_counterexample:
  "extractZipcode ''123456'' = None \<and> ''123456'' = [] @ ''12345'' @ ''6'' \<and> zip_shape ''12345''"
  by (simp add: extractZipcode_def zip_match_at_def word_boundary_def is_word_def
      is_digit_def code_def zip_shape_def)

section \<open>Properties of the request handler\<close>

lemma from_completions_Nil: "from_completions w []"
  by (simp add: from_completions_def)

lemma second_pass_events: "snd (second_pass w c inp) = [SecondCompletionCall inp]"
  by (simp add: second_pass_def split: sum.splits option.splits json.splits list.splits)

lemma second_pass_Inr:
  "second_pass w c inp = (Inr resp, evs) \<Longrightarrow> \<exists>ts. resp = success_response c ts \<and> from_completions w ts"
  unfolding second_pass_def from_completions_def
  by (auto split: sum.splits option.splits if_splits json.splits list.splits)

lemma type2_branch_Inr:
  "type2_branch w c pd = (Inr resp, evs) \<Longrightarrow> \<exists>ts. resp = success_response c ts \<and> from_completions w ts"
  unfolding type2_branch_def
  by (auto split: sum.splits option.splits if_splits prod.splits dest: second_pass_Inr)

lemma type2_branch_events:
  "set (snd (type2_branch w c pd)) \<subseteq> {ProcessingType2} \<union> range ExtractCall \<union> range (\<lambda>r. SecondCompletionCall (ExtractedContent r))"
  unfolding type2_branch_def
  using second_pass_events
  by (auto split: sum.splits option.splits if_splits prod.splits simp: second_pass_events dest!: arg_cong[where f=snd])

lemma type3_branch_Inr:
  "type3_branch w c first = (Inr resp, evs) \<Longrightarrow> \<exists>ts. resp = success_response c ts \<and> from_completions w ts"
  unfolding type3_branch_def
  by (auto split: sum.splits option.splits if_splits prod.splits dest: second_pass_Inr)

lemma dispatch_Inr:
  "dispatch w c pd = (Inr resp, evs) \<Longrightarrow>
     \<exists>ts. resp = success_response c ts
       \<and> (from_completions w ts
          \<or> (\<exists>first. pd = JArr (first # ts) \<and> member first ''type'' = Some (JStr ''Type 1'')))"
  unfolding dispatch_def Let_def
  by (auto split: json.splits list.splits if_splits
      dest: type2_branch_Inr type3_branch_Inr intro: from_completions_Nil)

lemma dispatch_events: "ProcessingType3 \<notin> set (snd (dispatch w c pd))"
  unfolding dispatch_def Let_def
  using type2_branch_events
  by (auto split: json.splits list.splits)

lemma direct_link_not_type1:
  "direct_link sa raw = first # ts \<Longrightarrow> member first ''type'' \<noteq> Some (JStr ''Type 1'')"
  by (auto simp: direct_link_def Let_def member_def split: option.splits prod.splits)

lemma process_content_Inr:
  assumes "process_content w c s = (Inr resp, evs)"
    and "firstCompletion w sa cand = Inr (Some s)"
  shows "\<exists>ts. resp = success_response c ts \<and> from_completions w ts"
proof -
  from assms(1) obtain pd where pd: "JSON_parse w s = Some pd"
    by (auto simp: process_content_def split: option.splits)
  from assms(1) pd obtain pd' evs' where d: "dispatch w c pd' = (Inr resp, evs')"
    and alt: "pd' = pd \<or> (\<exists>raw. pd' = JArr (direct_link (ctx_searchAddress c) raw))"
    by (auto simp: process_content_def split: json.splits list.splits option.splits prod.splits)
  from dispatch_Inr[OF d] obtain ts where ts: "resp = success_response c ts"
    and o: "from_completions w ts \<or> (\<exists>first. pd' = JArr (first # ts) \<and> member first ''type'' = Some (JStr ''Type 1''))"
    by blast
  from o show ?thesis
  proof
    assume "from_completions w ts" with ts show ?thesis by blast
  next
    assume "\<exists>first. pd' = JArr (first # ts) \<and> member first ''type'' = Some (JStr ''Type 1'')"
    then obtain first where f: "pd' = JArr (first # ts)" "member first ''type'' = Some (JStr ''Type 1'')"
      by blast
    have "pd' = pd"
    proof (rule ccontr)
      assume "pd' \<noteq> pd"
      with alt obtain raw where "pd' = JArr (direct_link (ctx_searchAddress c) raw)" by blast
      with f(1) have "direct_link (ctx_searchAddress c) raw = first # ts" by simp
      from direct_link_not_type1[OF this] f(2) show False by simp
    qed
    with f pd assms(2) have "from_completions w ts" unfolding from_completions_def by blast
    with ts show ?thesis by blast
  qed
qed

lemma process_content_events: "ProcessingType3 \<notin> set (snd (process_content w c s))"
  unfolding process_content_def
  using dispatch_events
  by (auto split: option.splits json.splits list.splits prod.splits dest!: arg_cong[where f=snd])

lemma process_candidate_cases:
  assumes "process_candidate w c = (resp, evs)"
  shows "(\<exists>ts. resp = success_response c ts \<and> from_completions w ts)
         \<or> (\<exists>msg. resp = error_response 500 msg)"
  using assms unfolding process_candidate_def
  by (auto split: sum.splits option.splits if_splits prod.splits dest: process_content_Inr)

lemma process_candidate_events: "ProcessingType3 \<notin> set (snd (process_candidate w c))"
  unfolding process_candidate_def
  using process_content_events
  by (auto split: sum.splits option.splits prod.splits dest!: arg_cong[where f=snd])

lemma type2_branch_steps: "set (snd (type2_branch w c pd)) \<subseteq> handler_steps"
  using type2_branch_events[of w c pd] unfolding handler_steps_def by auto

lemma dispatch_steps: "set (snd (dispatch w c pd)) \<subseteq> handler_steps"
proof -
  have "set (snd (dispatch w c pd)) \<subseteq> handler_steps \<union> set (snd (type2_branch w c (case pd of JArr xs \<Rightarrow> xs | _ \<Rightarrow> [])))"
    unfolding dispatch_def Let_def handler_steps_def
    by (auto split: json.splits list.splits)
  with type2_branch_steps show ?thesis by blast
qed

lemma process_content_steps: "set (snd (process_content w c s)) \<subseteq> handler_steps"
proof (cases "JSON_parse w s")
  case None
  then show ?thesis by (simp add: process_content_def)
next
  case (Some pd)
  have d: "DirectLinkDetection \<in> handler_steps" by (simp add: handler_steps_def)
  from Some show ?thesis
    using dispatch_steps[of w c pd]
      dispatch_steps[of w c "JArr (direct_link (ctx_searchAddress c) (the (rawContent (ctx_resultToUse c))))"] d
    by (auto simp: process_content_def split: json.splits list.splits option.splits prod.splits)
qed

lemma process_candidate_steps: "set (snd (process_candidate w c)) \<subseteq> handler_steps"
proof -
  have f: "FirstCompletionCall \<in> handler_steps" by (simp add: handler_steps_def)
  show ?thesis
    unfolding process_candidate_def
    using process_content_steps[of w c] f
    by (auto split: sum.splits option.splits prod.splits dest!: arg_cong[where f=snd])
      blast+
qed

lemma status_success [simp]: "status (success_response c ts) = 200"
  by (simp add: success_response_def)

lemma status_error [simp]: "status (error_response st msg) = st"
  by (simp add: error_response_def)

lemma sort_by_score_Nil: "sort_by_score results = [] \<longleftrightarrow> results = []"
  by (metis sort_by_score_def length_sort length_0_conv)

lemma select_result_None: "select_result sa results = None \<longleftrightarrow> results = []"
proof (cases "sort_by_score results")
  case Nil
  then show ?thesis using sort_by_score_Nil[of results] by (simp add: select_result_def)
next
  case (Cons b rest)
  then have "results \<noteq> []" using sort_by_score_Nil[of results] by auto
  then show ?thesis using Cons by (simp add: select_result_def split: list.splits)
qed

lemma select_result_Nil [simp]: "select_result sa [] = None"
  by (simp add: select_result_None)

text \<open>The handler's outcomes, one for each exit of the source.\<close>

lemma POST_cases:
  assumes "POST w zipData = (resp, evs)"
  obtains
    (bad_request) e where "request w = Inl e" "resp = error_response 500 (errorMessage e)"
      "evs = []"
  | (no_zip) a where "request w = Inr a" "extractZipcode a = None"
      "resp = error_response 400 ''Could not extract zipcode from address''" "evs = []"
  | (not_initialized) a z where "request w = Inr a" "extractZipcode a = Some z" "zipData = None"
      "resp = error_response 500 ''ZIP database not initialized''"
      "evs = [LookupZipCall z, ZipNotInitialized]"
  | (unknown_zip) a z m where "request w = Inr a" "extractZipcode a = Some z" "zipData = Some m"
      "m z = None" "resp = error_response 404 ''County information not found for this zipcode''"
      "evs = [LookupZipCall z]"
  | (search_failed) a z m info e where "request w = Inr a" "extractZipcode a = Some z"
      "zipData = Some m" "m z = Some info"
      "search w (search_query (removeZipcode a)) = Inl e" "resp = error_response 500 (errorMessage e)"
      "evs = [LookupZipCall z, SearchCall (search_query (removeZipcode a))]"
  | (no_results) a z m info where "request w = Inr a" "extractZipcode a = Some z"
      "zipData = Some m" "m z = Some info"
      "search w (search_query (removeZipcode a)) = Inr []"
      "resp = error_response 404 ''No property records found for this address''"
      "evs = [LookupZipCall z, SearchCall (search_query (removeZipcode a))]"
  | (candidate) a z m info results r evs' where "request w = Inr a" "extractZipcode a = Some z"
      "zipData = Some m" "m z = Some info"
      "search w (search_query (removeZipcode a)) = Inr results"
      "select_result (removeZipcode a) results = Some r"
      "process_candidate w \<lparr>ctx_zipcode = z, ctx_locationInfo = info,
         ctx_searchUrl = make_searchUrl info, ctx_searchAddress = removeZipcode a,
         ctx_resultToUse = r\<rparr> = (resp, evs')"
      "evs = [LookupZipCall z, SearchCall (search_query (removeZipcode a))] @ evs'"
proof (cases "request w")
  case (Inl e)
  then show ?thesis using assms bad_request by (simp add: POST_def)
next
  case (Inr a)
  note a = this
  show ?thesis
  proof (cases "extractZipcode a")
    case None
    then show ?thesis using assms a no_zip by (simp add: POST_def)
  next
    case (Some z)
    note z = this
    show ?thesis
    proof (cases zipData)
      case None
      then show ?thesis using assms a z not_initialized by (simp add: POST_def lookupZip_def)
    next
      case (Some m)
      note m = this
      show ?thesis
      proof (cases "m z")
        case None
        then show ?thesis using assms a z m unknown_zip by (simp add: POST_def lookupZip_def)
      next
        case (Some info)
        note info = this
        show ?thesis
        proof (cases "search w (search_query (removeZipcode a))")
          case (Inl e)
          then show ?thesis using assms a z m info search_failed
            by (simp add: POST_def lookupZip_def Let_def)
        next
          case (Inr results)
          note results = this
          show ?thesis
          proof (cases "select_result (removeZipcode a) results")
            case None
            then have "results = []" by (simp add: select_result_None)
            then show ?thesis using assms a z m info results None no_results
              by (simp add: POST_def lookupZip_def Let_def)
          next
            case (Some r)
            then show ?thesis using assms a z m info results candidate
              by (auto simp: POST_def lookupZip_def Let_def split: prod.splits)
          qed
        qed
      qed
    qed
  qed
qed

lemma POST_success:
  assumes "POST w zipData = (resp, evs)" "status resp = 200"
  shows "\<exists>a z m info ts. request w = Inr a \<and> extractZipcode a = Some z \<and> zipData = Some m
           \<and> m z = Some info \<and> LookupZipCall z \<in> set evs \<and> from_completions w ts
           \<and> body resp =
               [(''zipcode'', JStr z), (''city'', JStr (city info)),
                (''county'', JStr (county_name info)), (''state'', JStr (state_name info)),
                (''state_id'', JStr (state_id info)), (''county_fips'', JStr (county_fips info)),
                (''searchUrl'', JStr (make_searchUrl info)), (''transactions'', JArr ts)]"
  using assms(1)
proof (cases rule: POST_cases)
  case (candidate a z m info results r evs')
  from process_candidate_cases[OF candidate(7)] assms(2)
  obtain ts where ts: "resp = success_response \<lparr>ctx_zipcode = z, ctx_locationInfo = info,
         ctx_searchUrl = make_searchUrl info, ctx_searchAddress = removeZipcode a,
         ctx_resultToUse = r\<rparr> ts" "from_completions w ts"
    by auto
  have "LookupZipCall z \<in> set evs" using candidate(8) by simp
  with candidate(1-4) ts show ?thesis by (simp add: success_response_def)
qed (use assms(2) in simp_all)

lemma type2_branch_tag:
  "type2_branch w c (JObj ((''type'', t) # fs) # others)
     = type2_branch w c (JObj ((''type'', t') # fs) # others)"
  by (simp add: type2_branch_def item_matches_def member_def split: sum.splits bool.splits)

text \<open>
  Claim C4. A parsed answer whose first item carries the tag \<open>Type 3\<close> is processed as
  the same answer with the tag \<open>Type 2\<close>: both tags run the Type 2 branch, whose only
  steps are the address match, the extract call on the link and the second completion on
  the extracted content. The later \<open>Type 3\<close> branch is reached by no run of the handler.
\<close>

theorem type3_tag_runs_type2_branch:
  "dispatch w c (JArr (JObj ((''type'', JStr ''Type 3'') # fs) # others))
     = dispatch w c (JArr (JObj ((''type'', JStr ''Type 2'') # fs) # others))
   \<and> (member first ''type'' = Some (JStr ''Type 3'') \<or> member first ''type'' = Some (JStr ''Type 2'')
        \<longrightarrow> dispatch w c (JArr (first # others)) = type2_branch w c (first # others))
   \<and> set (snd (type2_branch w c parsedData))
        \<subseteq> {ProcessingType2} \<union> range ExtractCall
            \<union> range (\<lambda>raw. SecondCompletionCall (ExtractedContent raw))
   \<and> ProcessingType3 \<notin> set (snd (POST w zipData))"
proof -
  have 1: "dispatch w c (JArr (JObj ((''type'', JStr ''Type 3'') # fs) # others))
     = dispatch w c (JArr (JObj ((''type'', JStr ''Type 2'') # fs) # others))"
    using type2_branch_tag[of w c "JStr ''Type 3''" fs others "JStr ''Type 2''"]
    by (simp add: dispatch_def member_def)
  have 2: "member first ''type'' = Some (JStr ''Type 3'') \<or> member first ''type'' = Some (JStr ''Type 2'')
        \<longrightarrow> dispatch w c (JArr (first # others)) = type2_branch w c (first # others)"
    by (auto simp: dispatch_def)
  have 3: "ProcessingType3 \<notin> set (snd (POST w zipData))"
  proof -
    obtain resp evs where p: "POST w zipData = (resp, evs)" by (cases "POST w zipData")
    then show ?thesis
    proof (cases rule: POST_cases)
      case (candidate a z m info results r evs')
      from candidate(7) have "ProcessingType3 \<notin> set evs'"
        using process_candidate_events[of w "\<lparr>ctx_zipcode = z, ctx_locationInfo = info,
          ctx_searchUrl = make_searchUrl info, ctx_searchAddress = removeZipcode a,
          ctx_resultToUse = r\<rparr>"] by simp
      then show ?thesis using p candidate(8) by simp
    qed (use p in simp_all)
  qed
  from 1 2 3 type2_branch_events show ?thesis by blast
qed






text \<open>
  Claim C7. A success response is given only after \<open>lookupZip\<close> was called and found the
  record of the zip; its body has all the location fields, taken from that record, whatever
  the transactions are, and its transactions are empty or parsed from a completion.
\<close>

theorem success_after_lookup:
  assumes "POST w zipData = (resp, evs)" "status resp = 200"
  shows "\<exists>a z m info ts. request w = Inr a \<and> extractZipcode a = Some z \<and> zipData = Some m
           \<and> m z = Some info \<and> LookupZipCall z \<in> set evs \<and> from_completions w ts
           \<and> body resp =
               [(''zipcode'', JStr z), (''city'', JStr (city info)),
                (''county'', JStr (county_name info)), (''state'', JStr (state_name info)),
                (''state_id'', JStr (state_id info)), (''county_fips'', JStr (county_fips info)),
                (''searchUrl'', JStr (make_searchUrl info)), (''transactions'', JArr ts)]"
  using POST_success[OF assms] .

text \<open>
  Claim C10. In a success response \<open>searchUrl\<close> is \<open>https://gis.vgsi.com/\<close>, then the
  city of the record in lower case without white space, then its state code in lower case,
  then \<open>/search.aspx\<close>. Two runs on the same request and directory give the same
  \<open>searchUrl\<close>, whatever the search, the completions, the parser and the extract call
  answer.
\<close>

theorem searchUrl_from_ZipRecord:
  assumes "POST w zipData = (resp, evs)" "status resp = 200"
  shows "(\<exists>a z m info. request w = Inr a \<and> extractZipcode a = Some z \<and> zipData = Some m
            \<and> m z = Some info
            \<and> map_of (body resp) ''searchUrl'' =
                Some (JStr (''https://gis.vgsi.com/''
                  @ filter (\<lambda>c. \<not> is_space c) (toLowerCase (city info))
                  @ toLowerCase (state_id info) @ ''/search.aspx'')))
    \<and> (\<forall>w' resp' evs'. POST w' zipData = (resp', evs') \<and> status resp' = 200
            \<and> request w' = request w
          \<longrightarrow> map_of (body resp') ''searchUrl'' = map_of (body resp) ''searchUrl'')"
proof -
  from POST_success[OF assms] obtain a z m info ts where
    s: "request w = Inr a" "extractZipcode a = Some z" "zipData = Some m" "m z = Some info"
    and b: "body resp =
               [(''zipcode'', JStr z), (''city'', JStr (city info)),
                (''county'', JStr (county_name info)), (''state'', JStr (state_name info)),
                (''state_id'', JStr (state_id info)), (''county_fips'', JStr (county_fips info)),
                (''searchUrl'', JStr (make_searchUrl info)), (''transactions'', JArr ts)]"
    by blast
  have u: "map_of (body resp) ''searchUrl'' = Some (JStr (make_searchUrl info))"
    by (simp add: b)
  have "map_of (body resp') ''searchUrl'' = map_of (body resp) ''searchUrl''"
    if "POST w' zipData = (resp', evs')" "status resp' = 200" "request w' = request w"
    for w' resp' evs'
  proof -
    from POST_success[OF that(1,2)] obtain a' z' m' info' ts' where
      s': "request w' = Inr a'" "extractZipcode a' = Some z'" "zipData = Some m'" "m' z' = Some info'"
      and b': "body resp' =
               [(''zipcode'', JStr z'), (''city'', JStr (city info')),
                (''county'', JStr (county_name info')), (''state'', JStr (state_name info')),
                (''state_id'', JStr (state_id info')), (''county_fips'', JStr (county_fips info')),
                (''searchUrl'', JStr (make_searchUrl info')), (''transactions'', JArr ts')]"
      by blast
    from s s' that(3) have "info' = info" by simp
    then show ?thesis using u by (simp add: b')
  qed
  with s u show ?thesis by (simp add: make_searchUrl_def remove_ws_def) blast
qed

text \<open>
  Claim C8. When the first completion parses to the empty array and the selected candidate
  has no raw content, the response is a success with the empty list of transactions.
\<close>

theorem empty_array_without_raw_content:
  assumes "request w = Inr a" "extractZipcode a = Some z" "zipData = Some m" "m z = Some info"
    and "search w (search_query (removeZipcode a)) = Inr results"
    and "select_result (removeZipcode a) results = Some r"
    and "rawContent r = None \<or> rawContent r = Some []"
    and "firstCompletion w (removeZipcode a) r = Inr (Some s)" "s \<noteq> []"
    and "JSON_parse w s = Some (JArr [])"
  shows "status (fst (POST w zipData)) = 200
     \<and> map_of (body (fst (POST w zipData))) ''transactions'' = Some (JArr [])"
  using assms
  by (auto simp: POST_def lookupZip_def Let_def process_candidate_def process_content_def
      dispatch_def success_response_def)

subsection \<open>The sample run\<close>

lemmas char_defs = code_def is_digit_def is_word_def is_space_def is_line_terminator_def
  lower_char_def toLowerCase_def char_of_def bit_0

lemma ex_zip: "extractZipcode ''8 Lynnbrook Road, 06824'' = Some ''06824''"
  by (simp add: extractZipcode_def zip_match_at_def word_boundary_def char_defs)



lemma ex_remove: "removeZipcode ''8 Lynnbrook Road, 06824'' = ''8 Lynnbrook Road''"
  by (simp add: removeZipcode_def remove_at_def trim_def zip_match_at_def word_boundary_def
      char_defs)

lemma ex_load: "module_load example_otherNumber (Some example_rows) = Some (Map.empty(''06824'' \<mapsto> example_info))"
  by (simp add: module_load_def initializeZipData_def example_rows_def add_row_def row_key_def
      padStart_def number_toString_def int_toString_def dec.simps or_empty_def
      cell_toString_def example_info_def Let_def char_of_def bit_0)

lemma ex_select: "select_result ''8 Lynnbrook Road'' [example_candidate] = Some example_candidate"
  by (simp add: select_result_def sort_by_score_def address_in_content_def
      example_candidate_def char_defs)

lemma ex_searchUrl: "make_searchUrl example_info = ''https://gis.vgsi.com/fairfieldct/search.aspx''"
  by (simp add: make_searchUrl_def example_info_def remove_ws_def char_defs)

lemma ex_raw: "rawContent example_candidate = None"
  by (simp add: example_candidate_def)

lemma ex_post:
  "POST example_world (module_load example_otherNumber (Some example_rows))
     = (success_response \<lparr>ctx_zipcode = ''06824'', ctx_locationInfo = example_info,
          ctx_searchUrl = ''https://gis.vgsi.com/fairfieldct/search.aspx'',
          ctx_searchAddress = ''8 Lynnbrook Road'', ctx_resultToUse = example_candidate\<rparr> [],
        [LookupZipCall ''06824'', SearchCall ''8 Lynnbrook Road property sale history transactions'',
         FirstCompletionCall, NoValidResponseType])"
  unfolding ex_load
  by (simp add: POST_def example_world_def ex_zip ex_remove lookupZip_def ex_select Let_def
      process_candidate_def process_content_def dispatch_def search_query_def
      ex_searchUrl ex_raw)

text \<open>The sample run meets the hypotheses of claim C8.\<close>

theorem empty_array_without_raw_content_witness:
  "status (fst (POST example_world (module_load example_otherNumber (Some example_rows)))) = 200
   \<and> map_of (body (fst (POST example_world (module_load example_otherNumber (Some example_rows))))) ''transactions''
       = Some (JArr [])"
proof -
  have 1: "request example_world = Inr ''8 Lynnbrook Road, 06824''"
    by (simp add: example_world_def)
  have 2: "(Map.empty(''06824'' \<mapsto> example_info)) ''06824'' = Some example_info" by simp
  have 3: "search example_world (search_query (removeZipcode ''8 Lynnbrook Road, 06824''))
             = Inr [example_candidate]"
    by (simp add: example_world_def)
  have 4: "select_result (removeZipcode ''8 Lynnbrook Road, 06824'') [example_candidate]
             = Some example_candidate"
    by (simp add: ex_remove ex_select)
  have 5: "rawContent example_candidate = None \<or> rawContent example_candidate = Some []"
    by (simp add: example_candidate_def)
  have 6: "firstCompletion example_world (removeZipcode ''8 Lynnbrook Road, 06824'')
             example_candidate = Inr (Some ''[]'')"
    by (simp add: example_world_def)
  have 7: "''[]'' \<noteq> []" by simp
  have 8: "JSON_parse example_world ''[]'' = Some (JArr [])"
    by (simp add: example_world_def)
  from empty_array_without_raw_content[OF 1 ex_zip ex_load 2 3 4 5 6 7 8] show ?thesis .
qed

text \<open>The sample run is a success, and its county is the one of the record.\<close>

theorem success_after_lookup_witness:
  "status (fst (POST example_world (module_load example_otherNumber (Some example_rows)))) = 200
   \<and> LookupZipCall ''06824'' \<in> set (snd (POST example_world (module_load example_otherNumber (Some example_rows))))
   \<and> map_of (body (fst (POST example_world (module_load example_otherNumber (Some example_rows))))) ''county''
       = Some (JStr ''Fairfield'')"
proof -
  let ?p = "POST example_world (module_load example_otherNumber (Some example_rows))"
  have p: "?p = (fst ?p, snd ?p)" by simp
  have s: "status (fst ?p) = 200" by (simp add: ex_post)
  from success_after_lookup[OF p s] obtain a z m info ts where
    h: "request example_world = Inr a" "extractZipcode a = Some z"
      "module_load example_otherNumber (Some example_rows) = Some m" "m z = Some info"
      "LookupZipCall z \<in> set (snd ?p)"
      "map_of (body (fst ?p)) ''county'' = Some (JStr (county_name info))"
    by force
  from h(1) have a: "a = ''8 Lynnbrook Road, 06824''" by (simp add: example_world_def)
  with h(2) have z: "z = ''06824''" by (simp add: ex_zip)
  from h(3,4) z have "info = example_info" by (auto simp: ex_load)
  with h(5,6) z s show ?thesis by (simp add: example_info_def)
qed

text \<open>The \<open>searchUrl\<close> of the sample run.\<close>

theorem searchUrl_from_ZipRecord_witness:
  "status (fst (POST example_world (module_load example_otherNumber (Some example_rows)))) = 200
   \<and> map_of (body (fst (POST example_world (module_load example_otherNumber (Some example_rows))))) ''searchUrl''
       = Some (JStr ''https://gis.vgsi.com/fairfieldct/search.aspx'')"
proof -
  let ?p = "POST example_world (module_load example_otherNumber (Some example_rows))"
  have p: "?p = (fst ?p, snd ?p)" by simp
  have s: "status (fst ?p) = 200" by (simp add: ex_post)
  from searchUrl_from_ZipRecord[OF p s] obtain a z m info where
    h: "request example_world = Inr a" "extractZipcode a = Some z"
      "module_load example_otherNumber (Some example_rows) = Some m" "m z = Some info"
      "map_of (body (fst ?p)) ''searchUrl'' =
         Some (JStr (''https://gis.vgsi.com/''
           @ filter (\<lambda>c. \<not> is_space c) (toLowerCase (city info))
           @ toLowerCase (state_id info) @ ''/search.aspx''))"
    by blast
  from h(1) have a: "a = ''8 Lynnbrook Road, 06824''" by (simp add: example_world_def)
  with h(2) have z: "z = ''06824''" by (simp add: ex_zip)
  from h(3,4) z have "info = example_info" by (auto simp: ex_load)
  with h(5) s show ?thesis by (simp add: example_info_def char_defs)
qed

lemma ex_normalize:
  "normalize_for_match ''8 Lynnbrook Road'' = ''8 lynnbrook rd''"
  "normalize_for_match ''8 LYNNBROOK RD'' = ''8 lynnbrook rd''"
  by (simp_all add: normalize_for_match_def replace_ws_suffix_def trim_def collapse_ws_def
      Let_def char_defs)

lemma ex_type2_branch:
  "type2_branch example_follow_world example_context example_type3_answer
     = (Inr (success_response example_context []),
        [ProcessingType2,
         ExtractCall (JStr ''https://gis.vgsi.com/fairfieldct/Parcel.aspx?pid=2271''),
         SecondCompletionCall (ExtractedContent ''Ownership History'')])"
  by (simp add: type2_branch_def example_type3_answer_def item_matches_def member_def
      truthy_def example_context_def ex_normalize example_follow_world_def example_world_def
      second_pass_def)

text \<open>A \<open>Type 3\<close> answer whose link is followed: the steps are those of the Type 2 branch.\<close>

theorem type3_tag_runs_type2_branch_witness:
  "member (hd example_type3_answer) ''type'' = Some (JStr ''Type 3'')
   \<and> dispatch example_follow_world example_context (JArr example_type3_answer)
       = (Inr (success_response example_context []),
          [ProcessingType2,
           ExtractCall (JStr ''https://gis.vgsi.com/fairfieldct/Parcel.aspx?pid=2271''),
           SecondCompletionCall (ExtractedContent ''Ownership History'')])"
proof -
  let ?first = "JObj [(''type'', JStr ''Type 3'')]"
  let ?others = "[JObj [(''address'', JStr ''8 LYNNBROOK RD''),
            (''link'', JStr ''https://gis.vgsi.com/fairfieldct/Parcel.aspx?pid=2271'')]]"
  have e: "example_type3_answer = ?first # ?others"
    by (simp add: example_type3_answer_def)
  have m: "member ?first ''type'' = Some (JStr ''Type 3'')"
    by (simp add: member_def)
  from type3_tag_runs_type2_branch[where w = example_follow_world and c = example_context
      and first = ?first and others = ?others and fs = "[]" and parsedData = "[]"
      and zipData = None] m
  have "dispatch example_follow_world example_context (JArr (?first # ?others))
          = type2_branch example_follow_world example_context (?first # ?others)"
    by blast
  then have "dispatch example_follow_world example_context (JArr example_type3_answer)
          = type2_branch example_follow_world example_context example_type3_answer"
    unfolding e .
  moreover have "member (hd example_type3_answer) ''type'' = Some (JStr ''Type 3'')"
    unfolding e using m by simp
  ultimately show ?thesis by (simp add: ex_type2_branch)
qed






section \<open>Properties of the zip directory\<close>

lemma is_digit_char_of: "d < 10 \<Longrightarrow> is_digit (char_of (48 + d :: nat))"
  by (simp add: is_digit_def code_def)

lemma dec_digits: "list_all is_digit (dec n)"
proof (induction n rule: dec.induct)
  case (1 n)
  show ?case
  proof (cases "n < 10")
    case True
    then show ?thesis by (simp add: dec.simps[of n] is_digit_char_of)
  next
    case False
    then show ?thesis using 1 by (simp add: dec.simps[of n] is_digit_char_of)
  qed
qed

lemma dec_length: "n < 10 ^ k \<Longrightarrow> 0 < k \<Longrightarrow> length (dec n) \<le> k"
proof (induction k arbitrary: n)
  case 0
  then show ?case by simp
next
  case (Suc k)
  show ?case
  proof (cases "n < 10")
    case True
    then show ?thesis by (simp add: dec.simps[of n])
  next
    case False
    then have k: "0 < k" using Suc.prems by (cases k) auto
    have "n div 10 < 10 ^ k" using Suc.prems by (simp add: less_mult_imp_div_less mult.commute)
    from Suc.IH[OF this k] False show ?thesis by (simp add: dec.simps[of n])
  qed
qed

lemma number_toString_integer:
  assumes "x \<in> \<int>" "0 \<le> x" "x \<le> 99999"
  shows "number_toString otherNumber x = dec (nat \<lfloor>x\<rfloor>)" "nat \<lfloor>x\<rfloor> < 10 ^ 5"
proof -
  from assms(1) obtain i where i: "x = of_int i" by (auto elim: Ints_cases)
  with assms have r: "0 \<le> i" "i \<le> 99999" by simp_all
  then have "\<bar>x\<bar> < 10 ^ 21" using i by simp
  then show "number_toString otherNumber x = dec (nat \<lfloor>x\<rfloor>)"
    using i r by (simp add: number_toString_def int_toString_def)
  show "nat \<lfloor>x\<rfloor> < 10 ^ 5" using i r by simp
qed

lemma row_key_numeric:
  assumes "row_zip row = NumCell x" "x \<in> \<int>" "0 \<le> x" "x \<le> 99999"
  shows "row_key otherNumber row = padStart 5 (CHR ''0'') (dec (nat \<lfloor>x\<rfloor>))
     \<and> length (row_key otherNumber row) = 5 \<and> list_all is_digit (row_key otherNumber row)"
proof -
  note n = number_toString_integer(1)[OF assms(2-4), of otherNumber]
    number_toString_integer(2)[OF assms(2-4)]
  from n(2) have l: "length (dec (nat \<lfloor>x\<rfloor>)) \<le> 5" by (rule dec_length) simp
  have z: "is_digit (CHR ''0'')" by (simp add: is_digit_def code_def)
  from l z dec_digits[of "nat \<lfloor>x\<rfloor>"] assms(1) n(1) show ?thesis
    by (auto simp: row_key_def padStart_def list_all_iff)
qed

lemma add_row_lookup:
  assumes "add_row f m row k = Some info"
  shows "m k = Some info
     \<or> (k = row_key f row \<and> k \<noteq> [] \<and> zip info = k \<and> county_name info \<noteq> [] \<and> state_id info \<noteq> [])"
  using assms by (auto simp: add_row_def Let_def split: if_splits)

lemma foldl_add_row_lookup:
  assumes "foldl (add_row f) m0 data k = Some info"
  shows "m0 k = Some info
     \<or> (\<exists>row \<in> set data. k = row_key f row \<and> k \<noteq> [] \<and> zip info = k
            \<and> county_name info \<noteq> [] \<and> state_id info \<noteq> [])"
  using assms
proof (induction data arbitrary: m0)
  case Nil
  then show ?case by simp
next
  case (Cons row data)
  from Cons.IH[of "add_row f m0 row"] Cons.prems
  have "add_row f m0 row k = Some info
     \<or> (\<exists>row \<in> set data. k = row_key f row \<and> k \<noteq> [] \<and> zip info = k
            \<and> county_name info \<noteq> [] \<and> state_id info \<noteq> [])"
    by simp
  then show ?case using add_row_lookup[of f m0 row k info] by auto
qed

text \<open>
  Claim C3, as amended. After a successful load, every key is a non-empty string, equal to
  the zip of its record, and comes from a row of the table. It is a string of five digits,
  the decimal digits of the number after zeros, whenever the zip cell of that row is an
  integer from 0 to 99999. A text cell is stored as it is, and a number with a fraction or
  in exponent notation under its text, after zeros only when that text is shorter than
  five. Every stored record has a non-empty county name and a non-empty state code.
\<close>

theorem initializeZipData_keys:
  assumes "initializeZipData otherNumber (Some data) None = (r, Some m, evs)" "m k = Some info"
  shows "k \<noteq> [] \<and> zip info = k \<and> county_name info \<noteq> [] \<and> state_id info \<noteq> []
     \<and> (\<exists>row \<in> set data. k = row_key otherNumber row
          \<and> (\<forall>x. row_zip row = NumCell x \<and> x \<in> \<int> \<and> 0 \<le> x \<and> x \<le> 99999
                \<longrightarrow> k = padStart 5 (CHR ''0'') (dec (nat \<lfloor>x\<rfloor>))
                    \<and> length k = 5 \<and> list_all is_digit k)
          \<and> (\<forall>x. row_zip row = NumCell x \<and> \<not> (x \<in> \<int> \<and> \<bar>x\<bar> < 10 ^ 21)
                \<longrightarrow> k = padStart 5 (CHR ''0'') (otherNumber x))
          \<and> (\<forall>s. row_zip row = StrCell s \<longrightarrow> k = s))"
proof -
  from assms(1) have m: "m = foldl (add_row otherNumber) Map.empty data"
    by (simp add: initializeZipData_def)
  from foldl_add_row_lookup[of otherNumber Map.empty data k info] assms(2) m
  obtain row where row: "row \<in> set data" "k = row_key otherNumber row" "k \<noteq> []" "zip info = k"
    "county_name info \<noteq> []" "state_id info \<noteq> []" by auto
  have 1: "\<forall>x. row_zip row = NumCell x \<and> x \<in> \<int> \<and> 0 \<le> x \<and> x \<le> 99999
           \<longrightarrow> k = padStart 5 (CHR ''0'') (dec (nat \<lfloor>x\<rfloor>))
               \<and> length k = 5 \<and> list_all is_digit k"
    using row_key_numeric[of row _ otherNumber] row(2) by blast
  have i: "x \<in> \<int> \<longleftrightarrow> of_int \<lfloor>x\<rfloor> = x" for x :: rat
    by (metis Ints_of_int Ints_cases floor_of_int)
  have 2: "\<forall>x. row_zip row = NumCell x \<and> \<not> (x \<in> \<int> \<and> \<bar>x\<bar> < 10 ^ 21)
                \<longrightarrow> k = padStart 5 (CHR ''0'') (otherNumber x)"
    using row(2) by (auto simp: row_key_def number_toString_def i)
  have 3: "\<forall>s. row_zip row = StrCell s \<longrightarrow> k = s"
    using row(2) by (simp add: row_key_def)
  from row 1 2 3 show ?thesis by blast
qed

text \<open>
  Claim C3 as stated fails: a row whose zip is the text \<open>6824\<close> is stored under the key
  \<open>6824\<close>, which has four characters.
\<close>

theorem initializeZipData_text_zip_counterexample:
  "initializeZipData example_otherNumber (Some [example_text_row]) None
     = (Inr (), Some (Map.empty(''6824'' \<mapsto>
          \<lparr>zip = ''6824'', city = ''Fairfield'', state_id = ''CT'',
           state_name = ''Connecticut'', county_name = ''Fairfield'', county_fips = ''9001''\<rparr>)),
        [ZipDataWritten])
   \<and> length ''6824'' = 4"
  by (simp add: initializeZipData_def example_text_row_def add_row_def row_key_def Let_def
      or_empty_def cell_toString_def number_toString_def int_toString_def dec.simps
      char_of_def bit_0)

text \<open>The sample table: its numeric zip 6824 gives the key \<open>06824\<close>.\<close>

theorem initializeZipData_keys_witness:
  "initializeZipData example_otherNumber (Some example_rows) None
     = (Inr (), Some (Map.empty(''06824'' \<mapsto> example_info)), [ZipDataWritten])
   \<and> length ''06824'' = 5 \<and> list_all is_digit ''06824''
   \<and> county_name example_info \<noteq> [] \<and> state_id example_info \<noteq> []"
proof -
  have i: "initializeZipData example_otherNumber (Some example_rows) None
     = (Inr (), Some (Map.empty(''06824'' \<mapsto> example_info)), [ZipDataWritten])"
    using ex_load by (simp add: module_load_def initializeZipData_def)
  have l: "(Map.empty(''06824'' \<mapsto> example_info)) ''06824'' = Some example_info" by simp
  from initializeZipData_keys[OF i l]
  obtain row where row: "row \<in> set example_rows"
    "\<forall>x. row_zip row = NumCell x \<and> x \<in> \<int> \<and> 0 \<le> x \<and> x \<le> 99999
       \<longrightarrow> ''06824'' = padStart 5 (CHR ''0'') (dec (nat \<lfloor>x\<rfloor>))
           \<and> length ''06824'' = 5 \<and> list_all is_digit ''06824''"
    and c: "county_name example_info \<noteq> []" "state_id example_info \<noteq> []"
    by blast
  from row(1) have "row_zip row = NumCell 6824" by (simp add: example_rows_def)
  moreover have "(6824 :: rat) \<in> \<int>" "(0 :: rat) \<le> 6824" "(6824 :: rat) \<le> 99999"
    by simp_all
  ultimately have "length ''06824'' = 5 \<and> list_all is_digit ''06824''"
    using row(2)[rule_format, of 6824] by blast
  with i c show ?thesis by blast
qed

lemma handler_steps_excl:
  "ZipDataWritten \<notin> handler_steps" "ZipLoadFailed \<notin> handler_steps"
  "ZipNotInitialized \<notin> handler_steps"
  by (auto simp: handler_steps_def)

lemma POST_no_module_events:
  assumes "POST w zipData = (resp, evs)"
  shows "ZipDataWritten \<notin> set evs \<and> (zipData \<noteq> None \<longrightarrow> ZipNotInitialized \<notin> set evs)"
  using assms
proof (cases rule: POST_cases)
  case (candidate a z m info results r evs')
  from candidate(7) have "set evs' \<subseteq> handler_steps"
    using process_candidate_steps[of w "\<lparr>ctx_zipcode = z, ctx_locationInfo = info,
          ctx_searchUrl = make_searchUrl info, ctx_searchAddress = removeZipcode a,
          ctx_resultToUse = r\<rparr>"] by simp
  with handler_steps_excl candidate(8) show ?thesis by auto
qed simp_all

lemma POST_lookup_calls:
  assumes "POST w (Some m) = (resp, evs)" "LookupZipCall z \<in> set evs"
  shows "\<exists>a. request w = Inr a \<and> extractZipcode a = Some z"
  using assms(1)
proof (cases rule: POST_cases)
  case (candidate a z' m' info results r evs')
  from candidate(7) have "set evs' \<subseteq> handler_steps"
    using process_candidate_steps[of w "\<lparr>ctx_zipcode = z', ctx_locationInfo = info,
          ctx_searchUrl = make_searchUrl info, ctx_searchAddress = removeZipcode a,
          ctx_resultToUse = r\<rparr>"] by simp
  then have "LookupZipCall z \<notin> set evs'" by (auto simp: handler_steps_def)
  with candidate(1,2,8) assms(2) show ?thesis by auto
qed (use assms(2) in auto)

lemma process_eq:
  "process f file ws
     = (map (\<lambda>w. fst (serve f file w)) ws,
        snd (snd (initializeZipData f file None)) @ concat (map (\<lambda>w. snd (serve f file w)) ws))"
  by (simp add: process_def serve_def module_load_def comp_def split: prod.splits)

text \<open>
  Claim C2, as amended. The responses of a process are those of its handler on the state
  that the load left. When the table is read and parsed as the module loads, the directory
  is written once, before everything the handler does for any request; no request makes
  \<open>lookupZip\<close> take its branch for an unset directory, and every call of \<open>lookupZip\<close> is
  for the zip of the request and answers from the directory. When the load fails, the
  directory is never written, and every request whose address has a zip calls \<open>lookupZip\<close>
  on the unset directory: the branch is taken and the handler answers 500 with the message
  that the ZIP database is not initialized.
\<close>

theorem lookup_after_module_load:
  "(process otherNumber file ws = (resps, tr) \<longrightarrow>
      resps = map (\<lambda>w. fst (serve otherNumber file w)) ws)
   \<and> (process otherNumber (Some data) ws = (resps, tr) \<longrightarrow>
        (\<exists>rest. tr = ZipDataWritten # rest \<and> ZipDataWritten \<notin> set rest
             \<and> rest = concat (map (\<lambda>w. snd (serve otherNumber (Some data) w)) ws))
        \<and> ZipNotInitialized \<notin> set tr
        \<and> (\<forall>w \<in> set ws. \<forall>z. LookupZipCall z \<in> set (snd (serve otherNumber (Some data) w)) \<longrightarrow>
              (\<exists>a. request w = Inr a \<and> extractZipcode a = Some z)
              \<and> (\<exists>m. module_load otherNumber (Some data) = Some m
                    \<and> lookupZip (module_load otherNumber (Some data)) z = Inr (m z))))
   \<and> (process otherNumber None ws = (resps, tr) \<longrightarrow>
        ZipDataWritten \<notin> set tr
        \<and> (\<forall>w \<in> set ws. \<forall>a z. request w = Inr a \<and> extractZipcode a = Some z \<longrightarrow>
              serve otherNumber None w
                = (error_response 500 ''ZIP database not initialized'',
                   [LookupZipCall z, ZipNotInitialized])))"
proof -
  have a: "resps = map (\<lambda>w. fst (serve otherNumber file w)) ws"
    if "process otherNumber file ws = (resps, tr)"
    using that by (simp add: process_eq)
  define m0 where "m0 = foldl (add_row otherNumber) Map.empty data"
  have ld: "module_load otherNumber (Some data) = Some m0"
    by (simp add: module_load_def initializeZipData_def m0_def)
  have sv: "serve otherNumber (Some data) w = POST w (Some m0)" for w
    by (simp add: serve_def ld)
  have none: "ZipDataWritten \<notin> set (snd (serve otherNumber (Some data) w))
      \<and> ZipNotInitialized \<notin> set (snd (serve otherNumber (Some data) w))" for w
    using POST_no_module_events[of w "Some m0" "fst (POST w (Some m0))" "snd (POST w (Some m0))"]
    by (simp add: sv)
  have b: "(\<exists>rest. tr = ZipDataWritten # rest \<and> ZipDataWritten \<notin> set rest
             \<and> rest = concat (map (\<lambda>w. snd (serve otherNumber (Some data) w)) ws))
        \<and> ZipNotInitialized \<notin> set tr
        \<and> (\<forall>w \<in> set ws. \<forall>z. LookupZipCall z \<in> set (snd (serve otherNumber (Some data) w)) \<longrightarrow>
              (\<exists>a. request w = Inr a \<and> extractZipcode a = Some z)
              \<and> (\<exists>m. module_load otherNumber (Some data) = Some m
                    \<and> lookupZip (module_load otherNumber (Some data)) z = Inr (m z)))"
    if p: "process otherNumber (Some data) ws = (resps, tr)"
  proof -
    let ?rest = "concat (map (\<lambda>w. snd (serve otherNumber (Some data) w)) ws)"
    from p have tr: "tr = ZipDataWritten # ?rest"
      by (simp add: process_eq initializeZipData_def)
    have r1: "ZipDataWritten \<notin> set ?rest" and r2: "ZipNotInitialized \<notin> set ?rest"
      using none by auto
    have lk: "(\<exists>a. request w = Inr a \<and> extractZipcode a = Some z)
              \<and> (\<exists>m. module_load otherNumber (Some data) = Some m
                    \<and> lookupZip (module_load otherNumber (Some data)) z = Inr (m z))"
      if "LookupZipCall z \<in> set (snd (serve otherNumber (Some data) w))" for w z
      using POST_lookup_calls[of w m0 "fst (POST w (Some m0))" "snd (POST w (Some m0))" z] that
      by (simp add: sv ld lookupZip_def)
    from tr r1 r2 lk show ?thesis by auto
  qed
  have c: "ZipDataWritten \<notin> set tr
        \<and> (\<forall>w \<in> set ws. \<forall>a z. request w = Inr a \<and> extractZipcode a = Some z \<longrightarrow>
              serve otherNumber None w
                = (error_response 500 ''ZIP database not initialized'',
                   [LookupZipCall z, ZipNotInitialized]))"
    if p: "process otherNumber None ws = (resps, tr)"
  proof -
    have ldn: "module_load otherNumber None = None"
      by (simp add: module_load_def initializeZipData_def)
    have "ZipDataWritten \<notin> set (snd (serve otherNumber None w))" for w
      using POST_no_module_events[of w None "fst (POST w None)" "snd (POST w None)"]
      by (simp add: serve_def ldn)
    with p have 1: "ZipDataWritten \<notin> set tr"
      by (auto simp: process_eq initializeZipData_def)
    have 2: "serve otherNumber None w
                = (error_response 500 ''ZIP database not initialized'',
                   [LookupZipCall z, ZipNotInitialized])"
      if "request w = Inr a" "extractZipcode a = Some z" for w a z
      using that by (simp add: serve_def ldn POST_def lookupZip_def)
    from 1 2 show ?thesis by blast
  qed
  from a b c show ?thesis by blast
qed

text \<open>The sample request, served after a load that succeeded and after one that failed.\<close>

theorem lookup_after_module_load_witness:
  "snd (process example_otherNumber (Some example_rows) [example_world])
     = [ZipDataWritten, LookupZipCall ''06824'',
        SearchCall ''8 Lynnbrook Road property sale history transactions'',
        FirstCompletionCall, NoValidResponseType]
   \<and> ZipNotInitialized \<notin> set (snd (process example_otherNumber (Some example_rows) [example_world]))
   \<and> serve example_otherNumber None example_world
       = (error_response 500 ''ZIP database not initialized'',
          [LookupZipCall ''06824'', ZipNotInitialized])"
proof -
  let ?p = "process example_otherNumber (Some example_rows) [example_world]"
  let ?q = "process example_otherNumber None [example_world]"
  note t = lookup_after_module_load[where otherNumber = example_otherNumber
      and ws = "[example_world]"]
  have p: "?p = (fst ?p, snd ?p)" and q: "?q = (fst ?q, snd ?q)" by simp_all
  have r: "request example_world = Inr ''8 Lynnbrook Road, 06824''"
    by (simp add: example_world_def)
  from t[where data = example_rows and resps = "fst ?p" and tr = "snd ?p"] p
  have 1: "snd ?p = ZipDataWritten
             # concat (map (\<lambda>w. snd (serve example_otherNumber (Some example_rows) w))
                 [example_world])"
    and 2: "ZipNotInitialized \<notin> set (snd ?p)"
    by blast+
  from t[where resps = "fst ?q" and tr = "snd ?q"] q r ex_zip
  have 3: "serve example_otherNumber None example_world
       = (error_response 500 ''ZIP database not initialized'',
          [LookupZipCall ''06824'', ZipNotInitialized])"
    by simp
  from 1 2 3 show ?thesis by (simp add: serve_def ex_post)
qed

text \<open>
  Claim C2 as stated fails: after a failed load the handler calls \<open>lookupZip\<close> while the
  directory is unset, and its error branch is taken.
\<close>

theorem lookup_uninitialized_counterexample:
  "serve example_otherNumber None example_world
     = (error_response 500 ''ZIP database not initialized'',
        [LookupZipCall ''06824'', ZipNotInitialized])"
  by (simp add: serve_def module_load_def initializeZipData_def POST_def example_world_def
      ex_zip lookupZip_def)

section \<open>Properties of the candidate selection\<close>

lemma take_prefix_iff: "take (length n) s = n \<longleftrightarrow> (\<exists>q. s = n @ q)"
  by (metis append_eq_conv_conj append_take_drop_id)

lemma str_includes_iff: "str_includes s n \<longleftrightarrow> (\<exists>p q. s = p @ n @ q)"
proof (induction s)
  case Nil
  then show ?case by simp
next
  case (Cons c cs)
  show ?case
  proof
    assume "str_includes (c # cs) n"
    then consider "take (length n) (c # cs) = n" | "str_includes cs n" by auto
    then show "\<exists>p q. c # cs = p @ n @ q"
    proof cases
      case 1
      then obtain q where "c # cs = n @ q" using take_prefix_iff[of n "c # cs"] by blast
      then have "c # cs = [] @ n @ q" by simp
      then show ?thesis by blast
    next
      case 2
      with Cons.IH obtain p q where "cs = p @ n @ q" by blast
      then have "c # cs = (c # p) @ n @ q" by simp
      then show ?thesis by blast
    qed
  next
    assume "\<exists>p q. c # cs = p @ n @ q"
    then obtain p q where e: "c # cs = p @ n @ q" by blast
    show "str_includes (c # cs) n"
    proof (cases p)
      case Nil
      with e have "take (length n) (c # cs) = n" using take_prefix_iff[of n "c # cs"] by auto
      then show ?thesis by simp
    next
      case (Cons x p')
      with e have "cs = p' @ n @ q" by simp
      with Cons.IH have "str_includes cs n" by blast
      then show ?thesis by simp
    qed
  qed
qed

lemma address_in_content_iff: "address_in_content sa r \<longleftrightarrow> contains_address sa r"
  by (simp add: address_in_content_def contains_address_def str_includes_iff)

lemma set_sort_by_score: "set (sort_by_score results) = set results"
  by (simp add: sort_by_score_def)

lemma sorted_sort_by_score: "sorted (map (\<lambda>r. - score r) (sort_by_score results))"
  by (simp add: sort_by_score_def)

lemma select_result_Some:
  assumes "select_result sa results = Some r"
  shows "r \<in> set results
     \<and> ((\<exists>x \<in> set results. contains_address sa x)
          \<longrightarrow> contains_address sa r
              \<and> (\<forall>x \<in> set results. contains_address sa x \<longrightarrow> score x \<le> score r))
     \<and> (\<not> (\<exists>x \<in> set results. contains_address sa x)
          \<longrightarrow> (\<forall>x \<in> set results. score x \<le> score r))"
proof -
  let ?P = "address_in_content sa"
  let ?k = "\<lambda>r. - score r"
  from assms obtain b rest where s: "sort_by_score results = b # rest"
    by (cases "sort_by_score results") (auto simp: select_result_def)
  have set_eq: "set (b # rest) = set results" using set_sort_by_score[of results] s by simp
  have srt: "sorted (map ?k (b # rest))" using sorted_sort_by_score[of results] s by simp
  show ?thesis
  proof (cases "filter ?P (b # rest)")
    case Nil
    with assms s have r: "r = b" by (simp add: select_result_def)
    from Nil have "\<forall>x \<in> set (b # rest). \<not> ?P x" by (simp only: filter_empty_conv) 
    with set_eq have none: "\<not> (\<exists>x \<in> set results. contains_address sa x)"
      by (simp add: address_in_content_iff)
    from srt have "\<forall>x \<in> set rest. score x \<le> score b" by auto
    with set_eq have "\<forall>x \<in> set results. score x \<le> score b" by auto
    with r set_eq none show ?thesis by auto
  next
    case (Cons m ms)
    with assms s have r: "r = m" by (simp add: select_result_def)
    have mem: "set (m # ms) = {x \<in> set results. ?P x}"
      using Cons set_eq by (metis set_filter)
    from srt have "sorted (map ?k (filter ?P (b # rest)))" by (rule sorted_filter)
    with Cons have "sorted (map ?k (m # ms))" by simp
    then have "\<forall>x \<in> set (m # ms). score x \<le> score m" by auto
    with mem have best: "\<forall>x \<in> set results. ?P x \<longrightarrow> score x \<le> score m" by auto
    from mem have "m \<in> set results" "?P m" by auto
    with r best show ?thesis by (auto simp: address_in_content_iff)
  qed
qed

text \<open>
  Claim C5. No candidate is selected exactly when the search gave no result, and the request
  then fails with the 404 response of no results. Otherwise the candidate used is one of the
  results: when the content of some result contains the search address, it is such a result
  and no other such result has a higher score; when none does, no result at all has a
  higher score.
\<close>

theorem select_result_policy:
  "(select_result sa results = None \<longleftrightarrow> results = [])
   \<and> (\<forall>r. select_result sa results = Some r \<longrightarrow>
         r \<in> set results
         \<and> ((\<exists>x \<in> set results. contains_address sa x)
              \<longrightarrow> contains_address sa r
                  \<and> (\<forall>x \<in> set results. contains_address sa x \<longrightarrow> score x \<le> score r))
         \<and> (\<not> (\<exists>x \<in> set results. contains_address sa x)
              \<longrightarrow> (\<forall>x \<in> set results. score x \<le> score r)))
   \<and> (request w = Inr a \<and> extractZipcode a = Some z \<and> zipData = Some m \<and> m z = Some info
        \<and> search w (search_query (removeZipcode a)) = Inr found
        \<longrightarrow> (found = [] \<longrightarrow>
               fst (POST w zipData)
                 = error_response 404 ''No property records found for this address'')
            \<and> (\<forall>r. select_result (removeZipcode a) found = Some r \<longrightarrow>
                 fst (POST w zipData)
                   = fst (process_candidate w
                       \<lparr>ctx_zipcode = z, ctx_locationInfo = info,
                        ctx_searchUrl = make_searchUrl info,
                        ctx_searchAddress = removeZipcode a, ctx_resultToUse = r\<rparr>)))"
proof -
  have 1: "select_result sa results = None \<longleftrightarrow> results = []" by (rule select_result_None)
  have 3: "(found = [] \<longrightarrow>
               fst (POST w zipData)
                 = error_response 404 ''No property records found for this address'')
            \<and> (\<forall>r. select_result (removeZipcode a) found = Some r \<longrightarrow>
                 fst (POST w zipData)
                   = fst (process_candidate w
                       \<lparr>ctx_zipcode = z, ctx_locationInfo = info,
                        ctx_searchUrl = make_searchUrl info,
                        ctx_searchAddress = removeZipcode a, ctx_resultToUse = r\<rparr>))"
    if "request w = Inr a" "extractZipcode a = Some z" "zipData = Some m" "m z = Some info"
      "search w (search_query (removeZipcode a)) = Inr found"
    using that by (auto simp: POST_def lookupZip_def Let_def split: prod.splits)
  from 1 3 select_result_Some[of sa results] show ?thesis by blast
qed

lemma ex_select2:
  "select_result ''8 Lynnbrook Road'' [example_other_candidate, example_candidate]
     = Some example_candidate"
  by (simp add: select_result_def sort_by_score_def address_in_content_def
      example_candidate_def example_other_candidate_def char_defs)

text \<open>
  Two candidates, the one with the lower score holding the address, and a search without
  results.
\<close>

theorem select_result_policy_witness:
  "select_result ''8 Lynnbrook Road'' [example_other_candidate, example_candidate]
     = Some example_candidate
   \<and> score example_candidate < score example_other_candidate
   \<and> contains_address ''8 Lynnbrook Road'' example_candidate
   \<and> fst (POST (example_world\<lparr>search := (\<lambda>q. Inr [])\<rparr>) (module_load example_otherNumber (Some example_rows)))
       = error_response 404 ''No property records found for this address''"
proof -
  let ?w = "example_world\<lparr>search := (\<lambda>q. Inr [])\<rparr>"
  note t = select_result_policy[where sa = "''8 Lynnbrook Road''"
      and results = "[example_other_candidate, example_candidate]"
      and w = ?w and a = "''8 Lynnbrook Road, 06824''" and z = "''06824''"
      and zipData = "module_load example_otherNumber (Some example_rows)"
      and m = "Map.empty(''06824'' \<mapsto> example_info)" and info = example_info
      and found = "[]"]
  have "address_in_content ''8 Lynnbrook Road'' example_candidate"
    by (simp add: example_candidate_def address_in_content_def char_defs)
  then have c: "contains_address ''8 Lynnbrook Road'' example_candidate"
    by (simp add: address_in_content_iff)
  have h: "request ?w = Inr ''8 Lynnbrook Road, 06824''"
    "search ?w (search_query (removeZipcode ''8 Lynnbrook Road, 06824'')) = Inr []"
    by (simp_all add: example_world_def)
  have l: "(Map.empty(''06824'' \<mapsto> example_info)) ''06824'' = Some example_info" by simp
  from t h ex_zip ex_load l
  have "fst (POST ?w (module_load example_otherNumber (Some example_rows)))
       = error_response 404 ''No property records found for this address''"
    by blast
  moreover from t ex_select2 c
  have "contains_address ''8 Lynnbrook Road'' example_candidate" by blast
  moreover have "score example_candidate < score example_other_candidate"
    by (simp add: example_candidate_def example_other_candidate_def)
  ultimately show ?thesis using ex_select2 by blast
qed

section \<open>Properties of findParcelUrl\<close>







lemma link_at_not_bracket: "c \<noteq> CHR ''['' \<Longrightarrow> link_at ok (c # cs) = None"
  by (simp add: link_at_def)

lemma parcel_loop_skip:
  "CHR ''['' \<notin> set pre \<Longrightarrow> parcel_loop vars (pre @ s) = parcel_loop vars s"
  by (induction pre) (auto simp: link_at_not_bracket)


















text \<open>
  The second attempt on two addresses: the street name goes into the pattern as it is, also
  when it holds an opening parenthesis, and whatever the engine then does, throwing
  included, is the result.
\<close>

lemma second_attempt_examples:
  "addressParts ''8 lynnbrook road'' = Some (''8'', ''lynnbrook'')"
  "second_attempt regExpMatch ''8 main (st'' raw
     = regExpMatch (simpleMatch_source ''8'' ''main (st'') raw"
  by (simp_all add: second_attempt_def addressParts_def street_of_def road_suffix_def Let_def
      char_defs upt_rec[of _ "numeral _"])






end
